theory Spec2Isabelle
  imports Complex_Main "HOL-Library.Sublist" "HOL-Library.Word"
begin

section \<open>Python values shared by the embedding\<close>

text \<open>
  The exceptions the modelled functions of \<^verbatim>\<open>fairseq/data/data_utils.py\<close> can raise.
  \<open>SizeException i\<close> is the \<^verbatim>\<open>Exception\<close> that \<^verbatim>\<open>filter_by_size\<close> raises; it names the
  first ignored index \<open>i\<close>.
\<close>

datatype error =
    AttributeError
  | IndexError
  | TypeError
  | ValueError
  | AssertionError
  | ZeroDivisionError
  | KeyError
  | SizeException int

text \<open>
  A Python \<^verbatim>\<open>str\<close> is a sequence of Unicode code points. The marker U+2581 of sentencepiece
  is not a byte, so a string is modelled as the list of its code points.
\<close>

type_synonym pystr = "nat list"

definition ascii :: "string \<Rightarrow> pystr" where
  "ascii s = map of_char s"

section \<open>process_bpe_symbol\<close>

text \<open>
  \<^verbatim>\<open>str.replace(old, new)\<close>: every non-overlapping occurrence of \<open>old\<close>, found from the
  left, becomes \<open>new\<close>. With an empty \<open>old\<close>, \<open>new\<close> is inserted before every character
  and at the end.
\<close>

function replace_from :: "pystr \<Rightarrow> pystr \<Rightarrow> pystr \<Rightarrow> pystr" where
  "replace_from old new [] = []"
| "replace_from old new (c # cs) =
     (if old \<noteq> [] \<and> prefix old (c # cs)
      then new @ replace_from old new (drop (length old) (c # cs))
      else c # replace_from old new cs)"
  by pat_completeness auto
termination
  by (relation "measure (\<lambda>(old, new, s). length s)") auto

definition py_replace :: "pystr \<Rightarrow> pystr \<Rightarrow> pystr \<Rightarrow> pystr" where
  "py_replace s old new =
     (if old = [] then new @ concat (map (\<lambda>c. c # new) s) else replace_from old new s)"

text \<open>The code points for which \<^verbatim>\<open>str.isspace\<close> holds; \<^verbatim>\<open>strip\<close> and \<^verbatim>\<open>rstrip\<close> remove them.\<close>

definition py_isspace :: "nat \<Rightarrow> bool" where
  "py_isspace c \<longleftrightarrow>
     (9 \<le> c \<and> c \<le> 13) \<or> (28 \<le> c \<and> c \<le> 32) \<or> c = 133 \<or> c = 160 \<or> c = 5760
     \<or> (8192 \<le> c \<and> c \<le> 8202) \<or> c = 8232 \<or> c = 8233 \<or> c = 8239 \<or> c = 8287 \<or> c = 12288"

definition py_rstrip :: "pystr \<Rightarrow> pystr" where
  "py_rstrip s = rev (dropWhile py_isspace (rev s))"

definition py_strip :: "pystr \<Rightarrow> pystr" where
  "py_strip s = dropWhile py_isspace (py_rstrip s)"

text \<open>The literal \<^verbatim>\<open>'sentencepiece'\<close>, the space and the marker U+2581.\<close>

definition sentencepiece :: pystr where
  "sentencepiece = ascii ''sentencepiece''"

definition space :: pystr where
  "space = [32]"

definition sp_marker :: pystr where
  "sp_marker = [9601]"

text \<open>
  \<^verbatim>\<open>process_bpe_symbol(sentence, bpe_symbol)\<close>; \<open>None\<close> is Python's \<^verbatim>\<open>None\<close>, for which the
  sentence is returned as it is.
\<close>

definition process_bpe_symbol :: "pystr \<Rightarrow> pystr option \<Rightarrow> pystr" where
  "process_bpe_symbol sentence bpe_symbol =
     (if bpe_symbol = Some sentencepiece
      then py_strip (py_replace (py_replace sentence space []) sp_marker space)
      else case bpe_symbol of
             Some b \<Rightarrow> py_rstrip (py_replace (sentence @ space) b [])
           | None \<Rightarrow> sentence)"

section \<open>batch_by_size\<close>

text \<open>\<^verbatim>\<open>sys.maxsize\<close> on a 64-bit interpreter.\<close>

definition maxsize :: int where
  "maxsize = 2 ^ 63 - 1"

text \<open>
  The length at which a full batch is closed when its length must be a multiple of
  \<open>bsz_mult\<close>: the largest multiple of \<open>bsz_mult\<close> that fits, and the whole batch when
  it is shorter than one multiple (so that no empty batch is emitted).
\<close>

definition mod_len :: "nat \<Rightarrow> nat \<Rightarrow> nat" where
  "mod_len bsz_mult n = max (bsz_mult * (n div bsz_mult)) (n mod bsz_mult)"

text \<open>The largest token count among the examples of a batch, 0 for the empty batch.\<close>

definition batch_max :: "(int \<Rightarrow> int) \<Rightarrow> int list \<Rightarrow> int" where
  "batch_max num_tokens_fn batch = fold (\<lambda>i m. max m (num_tokens_fn i)) batch 0"

text \<open>
  Modelled from the spec: \<^verbatim>\<open>batch_by_size_fast\<close> of \<^verbatim>\<open>fairseq/data/data_utils_fast\<close>, the
  compiled packer that \<^verbatim>\<open>batch_by_size\<close> calls, is not among the sources. The loop
  follows section 4.2 of the specification. Its state is the list of batches emitted so
  far, the running batch and the running maximum of the token counts in the running
  batch. For the next index the cost of adding it is
  \<open>max running_max (num_tokens index) * (len batch + 1)\<close>. When the running batch is not
  empty and the cost exceeds \<open>max_tokens\<close> or \<open>len batch + 1\<close> exceeds \<open>max_sentences\<close>,
  the running batch is closed at \<open>mod_len\<close>, the indices held back start the next batch
  and the index is added to them; otherwise the index joins the running batch (an index
  meeting an empty batch always does, also when it alone exceeds the limits). After the
  last index a non-empty running batch is emitted.
\<close>

fun pack :: "(int \<Rightarrow> int) \<Rightarrow> int \<Rightarrow> int \<Rightarrow> nat \<Rightarrow> int list
    \<Rightarrow> int list list \<times> int list \<times> int \<Rightarrow> int list list" where
  "pack num_tokens_fn max_tokens max_sentences bsz_mult [] (batches, batch, running_max) =
     (if batch = [] then batches else batches @ [batch])"
| "pack num_tokens_fn max_tokens max_sentences bsz_mult (idx # rest) (batches, batch, running_max) =
     (let cost = max running_max (num_tokens_fn idx) * (int (length batch) + 1) in
      if batch \<noteq> [] \<and> (max_tokens < cost \<or> max_sentences < int (length batch) + 1)
      then let n = mod_len bsz_mult (length batch);
               held = drop n batch
           in pack num_tokens_fn max_tokens max_sentences bsz_mult rest
                (batches @ [take n batch], held @ [idx], batch_max num_tokens_fn (held @ [idx]))
      else pack num_tokens_fn max_tokens max_sentences bsz_mult rest
             (batches, batch @ [idx], max running_max (num_tokens_fn idx)))"

definition batch_by_size_fast :: "int list \<Rightarrow> (int \<Rightarrow> int) \<Rightarrow> int \<Rightarrow> int \<Rightarrow> nat \<Rightarrow> int list list" where
  "batch_by_size_fast indices num_tokens_fn max_tokens max_sentences bsz_mult =
     pack num_tokens_fn max_tokens max_sentences bsz_mult indices ([], [], 0)"

text \<open>
  \<^verbatim>\<open>batch_by_size\<close> itself: the defaults of \<^verbatim>\<open>max_tokens\<close> and \<^verbatim>\<open>max_sentences\<close> and the
  call of the packer. A generator argument is first read into an array, which is the
  list of indices here. \<open>bsz_mult\<close> is \<^verbatim>\<open>required_batch_size_multiple\<close>.
\<close>

definition batch_by_size :: "int list \<Rightarrow> (int \<Rightarrow> int) \<Rightarrow> int option \<Rightarrow> int option \<Rightarrow> nat
    \<Rightarrow> int list list" where
  "batch_by_size indices num_tokens_fn max_tokens max_sentences bsz_mult =
     batch_by_size_fast indices num_tokens_fn
       (case max_tokens of Some m \<Rightarrow> m | None \<Rightarrow> maxsize)
       (case max_sentences of Some m \<Rightarrow> m | None \<Rightarrow> maxsize)
       bsz_mult"

section \<open>collate_tokens\<close>

text \<open>
  A 1-D tensor of token ids is the list of its elements, the 2-D result the list of its
  rows. \<open>max_size\<close> is \<^verbatim>\<open>max(v.size(0) for v in values)\<close> for a non-empty list; the
  source's variable \<^verbatim>\<open>size\<close> is written \<open>sz\<close>.
\<close>

definition max_size :: "int list list \<Rightarrow> nat" where
  "max_size values = fold (\<lambda>v m. max m (length v)) values 0"

text \<open>
  \<^verbatim>\<open>copy_tensor(src, dst)\<close> writes into the slice \<open>dst\<close> of a row and is modelled by the
  new contents of that slice. With \<^verbatim>\<open>move_eos_to_beginning\<close> the last element of \<open>src\<close>
  must be \<^verbatim>\<open>eos_idx\<close> (an assertion; the read \<^verbatim>\<open>src[-1]\<close> of an empty tensor raises
  before it), \<^verbatim>\<open>dst[0]\<close> becomes \<^verbatim>\<open>eos_idx\<close> and \<^verbatim>\<open>dst[1:]\<close> becomes \<^verbatim>\<open>src[:-1]\<close>.
\<close>

definition copy_tensor :: "bool \<Rightarrow> int option \<Rightarrow> int list \<Rightarrow> int list \<Rightarrow> error + int list" where
  "copy_tensor move_eos_to_beginning eos_idx src dst =
     (if length dst \<noteq> length src then Inl AssertionError
      else if move_eos_to_beginning then
        (if src = [] then Inl IndexError
         else case eos_idx of
                None \<Rightarrow> Inl AssertionError
              | Some e \<Rightarrow> if last src \<noteq> e then Inl AssertionError
                          else Inr (take 1 (dst[0 := e]) @ butlast src))
      else Inr src)"

text \<open>
  The loop \<^verbatim>\<open>for i, v in enumerate(values)\<close>: the slice of row \<open>i\<close> is
  \<^verbatim>\<open>res[i][size - len(v):]\<close> when padding on the left and \<^verbatim>\<open>res[i][:len(v)]\<close> otherwise,
  and the row is written back with the slice replaced.
\<close>

fun collate_rows :: "bool \<Rightarrow> bool \<Rightarrow> int option \<Rightarrow> nat \<Rightarrow> nat \<Rightarrow> int list list
    \<Rightarrow> int list list \<Rightarrow> error + int list list" where
  "collate_rows left_pad move_eos_to_beginning eos_idx sz i [] res = Inr res"
| "collate_rows left_pad move_eos_to_beginning eos_idx sz i (v # vs) res =
     (let row = res ! i;
          dst = (if left_pad then drop (sz - length v) row else take (length v) row)
      in case copy_tensor move_eos_to_beginning eos_idx v dst of
           Inl e \<Rightarrow> Inl e
         | Inr d \<Rightarrow>
             collate_rows left_pad move_eos_to_beginning eos_idx sz (Suc i) vs
               (res[i := (if left_pad then take (sz - length v) row @ d
                          else d @ drop (length v) row)]))"

text \<open>
  \<^verbatim>\<open>collate_tokens\<close>: \<^verbatim>\<open>max\<close> of no value raises \<^verbatim>\<open>ValueError\<close>; otherwise the result
  starts as \<open>len(values)\<close> rows of \<open>sz\<close> copies of \<^verbatim>\<open>pad_idx\<close>.
\<close>

definition collate_tokens :: "int list list \<Rightarrow> int \<Rightarrow> int option \<Rightarrow> bool \<Rightarrow> bool
    \<Rightarrow> error + int list list" where
  "collate_tokens values pad_idx eos_idx left_pad move_eos_to_beginning =
     (if values = [] then Inl ValueError
      else let sz = max_size values;
               res = replicate (length values) (replicate sz pad_idx)
           in collate_rows left_pad move_eos_to_beginning eos_idx sz 0 values res)"

text \<open>
  The inverse that the round-trip property speaks of, written from its words: each row is
  truncated to the original length of its sequence, dropping the pad on the side where it
  was put.
\<close>

definition decollate :: "bool \<Rightarrow> nat list \<Rightarrow> int list list \<Rightarrow> int list list" where
  "decollate left_pad lens res =
     map (\<lambda>(n, row). if left_pad then drop (length row - n) row else take n row) (zip lens res)"

text \<open>A sequence padded to width \<open>sz\<close>, used to state what a row of the result is.\<close>

definition padded :: "bool \<Rightarrow> nat \<Rightarrow> int \<Rightarrow> int list \<Rightarrow> int list" where
  "padded left_pad sz pad_idx v =
     (if left_pad then replicate (sz - length v) pad_idx @ v
      else v @ replicate (sz - length v) pad_idx)"

section \<open>Size filtering\<close>

text \<open>
  The sizes and limits that \<^verbatim>\<open>check_size\<close> tells apart with \<^verbatim>\<open>isinstance\<close>. A size
  (\<^verbatim>\<open>dataset.size(idx)\<close>) is a number, a tuple of optional numbers or a dict from field
  names to values; the value of a dict field is \<^verbatim>\<open>None\<close>, a number or a tuple of optional
  numbers. A limit (\<^verbatim>\<open>max_positions\<close>) is a number, a tuple of optional numbers or a dict
  of the same kind. Numbers are integers; a dict is the list of its items in insertion
  order.
\<close>

datatype fval = FNone | FNum int | FTup "int option list"

datatype pysize = SNum int | STup "int option list" | SDict "(string \<times> fval) list"

datatype limit = LNum int | LTup "int option list" | LDict "(string \<times> fval) list"

text \<open>\<^verbatim>\<open>all(...)\<close> over a generator: it stops at the first false element or exception.\<close>

fun all_e :: "(error + bool) list \<Rightarrow> error + bool" where
  "all_e [] = Inr True"
| "all_e (Inl e # xs) = Inl e"
| "all_e (Inr b # xs) = (if b then all_e xs else Inr False)"

text \<open>\<^verbatim>\<open>a is None or b is None or a <= b\<close> on optional numbers.\<close>

fun le_opt :: "int option \<Rightarrow> int option \<Rightarrow> bool" where
  "le_opt None b = True"
| "le_opt (Some x) None = True"
| "le_opt (Some x) (Some y) = (x \<le> y)"

text \<open>
  The same test with a dict value on the left: a tuple compared with a number raises
  \<^verbatim>\<open>TypeError\<close>.
\<close>

fun fval_le_opt :: "fval \<Rightarrow> int option \<Rightarrow> error + bool" where
  "fval_le_opt FNone b = Inr True"
| "fval_le_opt (FNum x) None = Inr True"
| "fval_le_opt (FTup t) None = Inr True"
| "fval_le_opt (FNum x) (Some y) = Inr (x \<le> y)"
| "fval_le_opt (FTup t) (Some y) = Inl TypeError"

text \<open>Iterating a dict value, as \<^verbatim>\<open>zip\<close> does: only a tuple is iterable.\<close>

fun iter_fval :: "fval \<Rightarrow> error + int option list" where
  "iter_fval (FTup t) = Inr t"
| "iter_fval FNone = Inl TypeError"
| "iter_fval (FNum x) = Inl TypeError"

definition zip_le :: "int option list \<Rightarrow> int option list \<Rightarrow> bool" where
  "zip_le xs ys = list_all (\<lambda>(a, b). le_opt a b) (zip xs ys)"

text \<open>
  \<^verbatim>\<open>set(max_positions.keys()) & set(idx_size.keys())\<close>. Python leaves the iteration order
  of a set open; the keys are taken in the order of \<^verbatim>\<open>max_positions\<close>.
\<close>

definition intersect_keys :: "(string \<times> fval) list \<Rightarrow> (string \<times> fval) list \<Rightarrow> string list" where
  "intersect_keys max_positions idx_size =
     filter (\<lambda>k. k \<in> set (map fst idx_size)) (remdups (map fst max_positions))"

text \<open>One key of the dict-against-dict comparison: the zipped tuples of both sides.\<close>

definition key_ok :: "(string \<times> fval) list \<Rightarrow> (string \<times> fval) list \<Rightarrow> string \<Rightarrow> error + bool" where
  "key_ok max_positions idx_size key =
     (case map_of idx_size key of
        None \<Rightarrow> Inl KeyError
      | Some a \<Rightarrow>
          (case map_of max_positions key of
             None \<Rightarrow> Inl KeyError
           | Some b \<Rightarrow>
               (case iter_fval a of
                  Inl e \<Rightarrow> Inl e
                | Inr xs \<Rightarrow> (case iter_fval b of Inl e \<Rightarrow> Inl e | Inr ys \<Rightarrow> Inr (zip_le xs ys)))))"

text \<open>
  \<^verbatim>\<open>check_size(idx)\<close> of \<^verbatim>\<open>_filter_by_size_dynamic\<close>, as a function of the limit and of
  \<^verbatim>\<open>size_fn(idx)\<close>. With a number as limit, a size that is not a number is read through
  \<^verbatim>\<open>list(s.values())[0]\<close>: a tuple has no \<^verbatim>\<open>values\<close>, an empty dict has no first value, and
  a first value that is not a number cannot be compared with the limit.
\<close>

fun check_size :: "limit \<Rightarrow> pysize \<Rightarrow> error + bool" where
  "check_size (LNum m) (SNum s) = Inr (s \<le> m)"
| "check_size (LNum m) (STup t) = Inl AttributeError"
| "check_size (LNum m) (SDict []) = Inl IndexError"
| "check_size (LNum m) (SDict ((k, FNum a) # kvs)) = Inr (a \<le> m)"
| "check_size (LNum m) (SDict ((k, FNone) # kvs)) = Inl TypeError"
| "check_size (LNum m) (SDict ((k, FTup t) # kvs)) = Inl TypeError"
| "check_size (LDict mp) (SDict d) = all_e (map (key_ok mp d) (intersect_keys mp d))"
| "check_size (LDict mp) (SNum s) = Inl AssertionError"
| "check_size (LDict mp) (STup t) = Inl AssertionError"
| "check_size (LTup mp) (SDict d) = all_e (map (\<lambda>(a, b). fval_le_opt a b) (zip (map snd d) mp))"
| "check_size (LTup mp) (SNum s) =
     all_e (map (\<lambda>b. case b of None \<Rightarrow> Inl TypeError | Some y \<Rightarrow> Inr (s \<le> y)) mp)"
| "check_size (LTup mp) (STup t) = Inr (zip_le t mp)"

text \<open>
  The list objects that \<^verbatim>\<open>_filter_by_size_dynamic\<close> creates live in a heap, so that the
  generator and the variable \<^verbatim>\<open>ignored\<close> can name the same or different objects.
\<close>

type_synonym heap = "int list list"

definition alloc :: "heap \<Rightarrow> nat \<times> heap" where
  "alloc h = (length h, h @ [[]])"

text \<open>
  \<^verbatim>\<open>collect_filtered(function, iterable, filtered, noskip)\<close>, run to its end: the elements
  it yields and the heap in which the rejected ones were appended to the list at address
  \<open>filtered\<close>. \<^verbatim>\<open>function(el)\<close> is evaluated before \<^verbatim>\<open>noskip\<close> is looked at.
\<close>

fun collect_filtered :: "(int \<Rightarrow> error + bool) \<Rightarrow> int list \<Rightarrow> nat \<Rightarrow> bool \<Rightarrow> heap
    \<Rightarrow> error + int list \<times> heap" where
  "collect_filtered function [] filtered noskip h = Inr ([], h)"
| "collect_filtered function (el # rest) filtered noskip h =
     (case function el of
        Inl e \<Rightarrow> Inl e
      | Inr b \<Rightarrow>
          if b \<or> noskip
          then (case collect_filtered function rest filtered noskip h of
                  Inl e \<Rightarrow> Inl e
                | Inr (ys, h') \<Rightarrow> Inr (el # ys, h'))
          else collect_filtered function rest filtered noskip (h[filtered := h ! filtered @ [el]]))"

text \<open>
  \<^verbatim>\<open>_filter_by_size_dynamic\<close>. The generator is created over the first list; with
  \<^verbatim>\<open>noskip\<close> the variable \<^verbatim>\<open>ignored\<close> is then bound to a second, new list; only then
  \<^verbatim>\<open>np.fromiter\<close> runs the generator. The parameter \<^verbatim>\<open>raise_exception\<close> is not used by
  the source and is left out.
\<close>

definition filter_by_size_dynamic :: "int list \<Rightarrow> (int \<Rightarrow> pysize) \<Rightarrow> limit \<Rightarrow> bool
    \<Rightarrow> error + int list \<times> int list" where
  "filter_by_size_dynamic indices size_fn max_positions noskip =
     (let (first, h1) = alloc [];
          (ignored, h2) = (if noskip then alloc h1 else (first, h1))
      in case collect_filtered (\<lambda>idx. check_size max_positions (size_fn idx)) indices first noskip h2 of
           Inl e \<Rightarrow> Inl e
         | Inr (kept, h3) \<Rightarrow> Inr (kept, h3 ! ignored))"

text \<open>
  A dataset as \<^verbatim>\<open>filter_by_size\<close> sees it: the attribute \<^verbatim>\<open>sizes\<close>, which is absent (or of
  another type), a NumPy array or a list of NumPy arrays, and the method \<^verbatim>\<open>size\<close>.
\<close>

datatype sizes_attr = NoSizes | SizesArray "int list" | SizesList "int list list"

record dataset =
  sizes :: sizes_attr
  size_of :: "int \<Rightarrow> pysize"

text \<open>
  NumPy indexing of an array by an index array: an index from \<open>-n\<close> up to \<open>n - 1\<close> is
  valid, a negative one counting from the end; any other raises \<^verbatim>\<open>IndexError\<close>.
\<close>

definition np_get :: "int list \<Rightarrow> int \<Rightarrow> error + int" where
  "np_get a i =
     (let n = int (length a); j = (if i < 0 then n + i else i)
      in if 0 \<le> j \<and> j < n then Inr (a ! nat j) else Inl IndexError)"

fun np_take :: "int list \<Rightarrow> int list \<Rightarrow> error + int list" where
  "np_take a [] = Inr []"
| "np_take a (i # is) =
     (case np_get a i of
        Inl e \<Rightarrow> Inl e
      | Inr x \<Rightarrow> (case np_take a is of Inl e \<Rightarrow> Inl e | Inr xs \<Rightarrow> Inr (x # xs)))"

text \<open>Indexing by a boolean mask of the same length.\<close>

definition np_mask :: "int list \<Rightarrow> bool list \<Rightarrow> int list" where
  "np_mask xs bs = map fst (filter snd (zip xs bs))"

text \<open>
  The two branches of \<^verbatim>\<open>filter_by_size\<close> that read the array of sizes:
  \<^verbatim>\<open>ignored = indices[sizes[indices] > max_positions].tolist()\<close> and
  \<^verbatim>\<open>indices = indices[sizes[indices] <= max_positions]\<close>.
\<close>

definition filter_by_sizes_array :: "int list \<Rightarrow> int list \<Rightarrow> int \<Rightarrow> error + int list \<times> int list" where
  "filter_by_sizes_array indices a max_positions =
     (case np_take a indices of
        Inl e \<Rightarrow> Inl e
      | Inr s \<Rightarrow> Inr (np_mask indices (map (\<lambda>x. x \<le> max_positions) s),
                      np_mask indices (map (\<lambda>x. max_positions < x) s)))"

text \<open>
  The first half of \<^verbatim>\<open>filter_by_size\<close>: the choice of the branch, giving the indices kept
  and the list \<^verbatim>\<open>ignored\<close>.
\<close>

fun filter_by_size_parts :: "int list \<Rightarrow> dataset \<Rightarrow> limit \<Rightarrow> bool \<Rightarrow> error + int list \<times> int list" where
  "filter_by_size_parts indices dataset (LNum m) noskip =
     (case sizes dataset of
        SizesArray a \<Rightarrow> filter_by_sizes_array indices a m
      | SizesList [a] \<Rightarrow> filter_by_sizes_array indices a m
      | _ \<Rightarrow> filter_by_size_dynamic indices (size_of dataset) (LNum m) noskip)"
| "filter_by_size_parts indices dataset max_positions noskip =
     filter_by_size_dynamic indices (size_of dataset) max_positions noskip"

text \<open>
  What \<^verbatim>\<open>filter_by_size\<close> gives back: the indices kept and, when some index was ignored,
  the warning it prints, with the number of ignored indices and the first ten of them.
\<close>

record filtered =
  kept :: "int list"
  warning :: "(nat \<times> int list) option"

text \<open>
  The second half of \<^verbatim>\<open>filter_by_size\<close>: the exception, which names the first ignored
  index, the warning and the result.
\<close>

definition filter_by_size :: "int list \<Rightarrow> dataset \<Rightarrow> limit \<Rightarrow> bool \<Rightarrow> bool \<Rightarrow> error + filtered" where
  "filter_by_size indices dataset max_positions raise_exception noskip =
     (case filter_by_size_parts indices dataset max_positions noskip of
        Inl e \<Rightarrow> Inl e
      | Inr (indices', ignored) \<Rightarrow>
          if 0 < length ignored \<and> raise_exception then Inl (SizeException (hd ignored))
          else Inr \<lparr>kept = indices',
                    warning = (if 0 < length ignored then Some (length ignored, take 10 ignored)
                               else None)\<rparr>)"

text \<open>
  The limit predicate that each branch applies to an index: the comparison of its entry
  in the array of sizes on the array branches, \<^verbatim>\<open>check_size\<close> on the dynamic one.
\<close>

fun size_ok :: "dataset \<Rightarrow> limit \<Rightarrow> int \<Rightarrow> error + bool" where
  "size_ok dataset (LNum m) idx =
     (case sizes dataset of
        SizesArray a \<Rightarrow> (case np_get a idx of Inl e \<Rightarrow> Inl e | Inr x \<Rightarrow> Inr (x \<le> m))
      | SizesList [a] \<Rightarrow> (case np_get a idx of Inl e \<Rightarrow> Inl e | Inr x \<Rightarrow> Inr (x \<le> m))
      | _ \<Rightarrow> check_size (LNum m) (size_of dataset idx))"
| "size_ok dataset max_positions idx = check_size max_positions (size_of dataset idx)"

text \<open>Whether \<^verbatim>\<open>filter_by_size\<close> takes the branch of \<^verbatim>\<open>_filter_by_size_dynamic\<close>.\<close>

fun dynamic_path :: "dataset \<Rightarrow> limit \<Rightarrow> bool" where
  "dynamic_path dataset (LNum m) =
     (case sizes dataset of SizesArray a \<Rightarrow> False | SizesList [a] \<Rightarrow> False | _ \<Rightarrow> True)"
| "dynamic_path dataset max_positions = True"

text \<open>
  Example inputs: a dataset without an array of sizes whose examples have the scalar size
  \<open>3 * idx\<close>, a size function that gives every example the tuple \<open>(3, 4)\<close>, and one that
  gives example \<open>idx\<close> the dict \<open>{source: 10 * idx, target: 1}\<close>.
\<close>

definition scalar_sized :: dataset where
  "scalar_sized = \<lparr>sizes = NoSizes, size_of = (\<lambda>idx. SNum (3 * idx))\<rparr>"

definition tuple_sized :: "int \<Rightarrow> pysize" where
  "tuple_sized idx = STup [Some 3, Some 4]"

definition dict_sized :: "int \<Rightarrow> pysize" where
  "dict_sized idx = SDict [(''source'', FNum (10 * idx)), (''target'', FNum 1)]"

section \<open>train_step and valid_step of MultilingualTranslationTask\<close>

text \<open>
  The sample of a step is a dict from language pairs (strings such as \<^verbatim>\<open>de-en\<close>) to the
  batch of that pair; the value under a key can also be \<^verbatim>\<open>None\<close>. A batch is left
  abstract: the steps only take its \<^verbatim>\<open>len\<close>, read \<^verbatim>\<open>nsentences\<close> and hand it on.
\<close>

datatype 's entry = PyNone | Batch 's

type_synonym 's sample = "string \<rightharpoonup> 's entry"

text \<open>
  The fields of \<^verbatim>\<open>self.args\<close> that \<^verbatim>\<open>train_step\<close> reads, and the fields of the task that
  both steps read.
\<close>

record task_args =
  data_actor_step_update :: bool
  out_score_type :: string
  select_by_dds_epoch :: int

record task =
  args :: task_args
  model_lang_pairs :: "string list"
  eval_lang_pairs :: "string list"

text \<open>
  The collaborators of the steps, which are outside this task class: \<^verbatim>\<open>len\<close> and
  \<^verbatim>\<open>nsentences\<close> of a batch, the models per language pair (\<^verbatim>\<open>model.models\<close>), the
  criterion, called with a model, a batch, the optional data score and the flag
  \<^verbatim>\<open>loss_copy\<close> and returning the loss, the sample size, the logging output and the
  copied loss, and the tensor operations on the scores of the data actor
  (\<^verbatim>\<open>score.sum()\<close>, \<^verbatim>\<open>softmax(score) * example_size\<close> and
  \<^verbatim>\<open>score * example_size / sum_score\<close>). Losses and sizes are of any type with a zero,
  an addition and a multiplication: no law of arithmetic is used.
\<close>

record ('s, 'm, 'sc, 'a, 'lo, 'n) collab =
  batch_len :: "'s \<Rightarrow> nat"
  nsentences :: "'s \<Rightarrow> 'a"
  models :: "string \<rightharpoonup> 'm"
  criterion :: "'m \<Rightarrow> 's \<Rightarrow> 'sc option \<Rightarrow> bool \<Rightarrow> 'a \<times> 'a \<times> 'lo \<times> 'n"
  score_sum :: "'sc \<Rightarrow> 'a"
  softmax_scaled :: "'sc \<Rightarrow> 'a \<Rightarrow> 'sc"
  ratio_scaled :: "'sc \<Rightarrow> 'a \<Rightarrow> 'a \<Rightarrow> 'sc"

text \<open>
  What the steps return, \<^verbatim>\<open>agg_loss\<close>, \<^verbatim>\<open>agg_sample_size\<close> and \<^verbatim>\<open>agg_logging_output\<close>,
  and for \<^verbatim>\<open>train_step\<close> also what it does to its arguments: the dicts \<^verbatim>\<open>loss_copy\<close> and
  \<^verbatim>\<open>data_actor_out\<close> (absent when the argument is \<^verbatim>\<open>None\<close>) and the calls of
  \<^verbatim>\<open>backward\<close>, each with the position of the optimizer, the loss and \<^verbatim>\<open>retain_graph\<close>.
\<close>

record ('a, 'lo) agg =
  agg_loss :: 'a
  agg_sample_size :: 'a
  agg_logging_output :: "string \<rightharpoonup> 'lo"

record ('a, 'lo, 'n, 'sc) train_state = "('a, 'lo) agg" +
  loss_copy :: "(string \<rightharpoonup> 'n) option"
  data_actor_out :: "(string \<rightharpoonup> 'sc) option"
  backward :: "(nat \<times> 'a \<times> bool) list"

text \<open>The argument \<^verbatim>\<open>optimizer\<close>: one optimizer or a list of so many.\<close>

datatype optimizer = Single | Several nat

text \<open>
  The guard of every loop over language pairs:
  \<^verbatim>\<open>lang_pair not in sample or sample[lang_pair] is None or len(sample[lang_pair]) == 0\<close>.
\<close>

definition absent :: "('s \<Rightarrow> nat) \<Rightarrow> 's sample \<Rightarrow> string \<Rightarrow> bool" where
  "absent len_fn sample lang_pair =
     (case sample lang_pair of
        None \<Rightarrow> True
      | Some PyNone \<Rightarrow> True
      | Some (Batch b) \<Rightarrow> len_fn b = 0)"

text \<open>
  The body of the loop of \<^verbatim>\<open>valid_step\<close> for a language pair whose batch \<open>b\<close> is present.
\<close>

definition valid_pair :: "('s, 'm, 'sc, 'a :: {zero, plus, times}, 'lo, 'n) collab \<Rightarrow> string \<Rightarrow> 's
    \<Rightarrow> ('a, 'lo) agg \<Rightarrow> error + ('a, 'lo) agg" where
  "valid_pair c lang_pair b acc =
     (case models c lang_pair of
        None \<Rightarrow> Inl KeyError
      | Some m \<Rightarrow>
          (case criterion c m b None False of
             (loss, sample_size, logging_output, nll) \<Rightarrow>
               Inr (acc\<lparr>agg_loss := agg_loss acc + loss,
                        agg_sample_size := agg_sample_size acc + sample_size,
                        agg_logging_output := (agg_logging_output acc)(lang_pair \<mapsto> logging_output)\<rparr>)))"

text \<open>The loop of \<^verbatim>\<open>valid_step\<close> over \<^verbatim>\<open>self.eval_lang_pairs\<close>.\<close>

fun valid_loop :: "('s, 'm, 'sc, 'a :: {zero, plus, times}, 'lo, 'n) collab \<Rightarrow> 's sample \<Rightarrow> string list
    \<Rightarrow> ('a, 'lo) agg \<Rightarrow> error + ('a, 'lo) agg" where
  "valid_loop c sample [] acc = Inr acc"
| "valid_loop c sample (lang_pair # rest) acc =
     (case sample lang_pair of
        None \<Rightarrow> valid_loop c sample rest acc
      | Some PyNone \<Rightarrow> valid_loop c sample rest acc
      | Some (Batch b) \<Rightarrow>
          if batch_len c b = 0 then valid_loop c sample rest acc
          else (case valid_pair c lang_pair b acc of
                  Inl e \<Rightarrow> Inl e
                | Inr acc' \<Rightarrow> valid_loop c sample rest acc'))"

definition valid_step :: "task \<Rightarrow> ('s, 'm, 'sc, 'a :: {zero, plus, times}, 'lo, 'n) collab \<Rightarrow> 's sample
    \<Rightarrow> error + ('a, 'lo) agg" where
  "valid_step self c sample =
     valid_loop c sample (eval_lang_pairs self)
       \<lparr>agg_loss = 0, agg_sample_size = 0, agg_logging_output = Map.empty\<rparr>"

text \<open>
  The first loop of \<^verbatim>\<open>train_step\<close> when the data actor is used: the scores per language
  pair, their sum and the number of sentences. Storing into \<^verbatim>\<open>data_actor_out\<close> raises
  \<^verbatim>\<open>TypeError\<close> when that argument is \<^verbatim>\<open>None\<close>.
\<close>

fun score_loop :: "('s, 'm, 'sc, 'a :: {zero, plus, times}, 'lo, 'n) collab \<Rightarrow> ('s \<Rightarrow> 'sc) \<Rightarrow> 's sample
    \<Rightarrow> string list \<Rightarrow> (string \<rightharpoonup> 'sc) \<times> 'a \<times> 'a \<times> (string \<rightharpoonup> 'sc) option
    \<Rightarrow> error + (string \<rightharpoonup> 'sc) \<times> 'a \<times> 'a \<times> (string \<rightharpoonup> 'sc) option" where
  "score_loop c actor sample [] st = Inr st"
| "score_loop c actor sample (lang_pair # rest) (data_score, sum_score, example_size, out) =
     (case sample lang_pair of
        None \<Rightarrow> score_loop c actor sample rest (data_score, sum_score, example_size, out)
      | Some PyNone \<Rightarrow> score_loop c actor sample rest (data_score, sum_score, example_size, out)
      | Some (Batch b) \<Rightarrow>
          if batch_len c b = 0
          then score_loop c actor sample rest (data_score, sum_score, example_size, out)
          else (case out of
                  None \<Rightarrow> Inl TypeError
                | Some d \<Rightarrow>
                    score_loop c actor sample rest
                      (data_score(lang_pair \<mapsto> actor b),
                       sum_score + score_sum c (actor b),
                       example_size + nsentences c b,
                       Some (d(lang_pair \<mapsto> actor b)))))"

text \<open>The second loop: the normalised scores.\<close>

fun normalize_loop :: "('s, 'm, 'sc, 'a :: {zero, plus, times}, 'lo, 'n) collab \<Rightarrow> string \<Rightarrow> 's sample
    \<Rightarrow> (string \<rightharpoonup> 'sc) \<Rightarrow> 'a \<Rightarrow> 'a \<Rightarrow> string list \<Rightarrow> (string \<rightharpoonup> 'sc)
    \<Rightarrow> error + (string \<rightharpoonup> 'sc)" where
  "normalize_loop c score_type sample data_score sum_score example_size [] normed = Inr normed"
| "normalize_loop c score_type sample data_score sum_score example_size (lang_pair # rest) normed =
     (case sample lang_pair of
        None \<Rightarrow> normalize_loop c score_type sample data_score sum_score example_size rest normed
      | Some PyNone \<Rightarrow> normalize_loop c score_type sample data_score sum_score example_size rest normed
      | Some (Batch b) \<Rightarrow>
          if batch_len c b = 0
          then normalize_loop c score_type sample data_score sum_score example_size rest normed
          else (case data_score lang_pair of
                  None \<Rightarrow> Inl KeyError
                | Some score \<Rightarrow>
                    normalize_loop c score_type sample data_score sum_score example_size rest
                      (normed(lang_pair \<mapsto>
                         (if score_type = ''tanh'' then softmax_scaled c score example_size
                          else ratio_scaled c score example_size sum_score)))))"

text \<open>
  The calls of \<^verbatim>\<open>backward\<close> for one loss: with a list of optimizers all but the last retain
  the graph; the last element of an empty list does not exist.
\<close>

fun backward_calls :: "optimizer \<Rightarrow> 'a \<Rightarrow> error + (nat \<times> 'a \<times> bool) list" where
  "backward_calls Single loss = Inr [(0, loss, False)]"
| "backward_calls (Several 0) loss = Inl IndexError"
| "backward_calls (Several (Suc n)) loss = Inr (map (\<lambda>i. (i, loss, True)) [0..<n] @ [(n, loss, False)])"

text \<open>
  The body of the main loop of \<^verbatim>\<open>train_step\<close> for a language pair whose batch \<open>b\<close> is
  present. \<open>scored\<close> says whether \<^verbatim>\<open>data_score\<close> is a dict (the data actor was used) or
  \<^verbatim>\<open>None\<close>. The score is looked up first, then the model; the criterion runs; the copied
  loss is stored when \<^verbatim>\<open>loss_copy\<close> is a dict; the loss is multiplied by 0 with
  \<^verbatim>\<open>ignore_grad\<close> and propagated backward otherwise; then the three sums are updated.
\<close>

definition train_pair :: "task_args \<Rightarrow> ('s, 'm, 'sc, 'a :: {zero, plus, times}, 'lo, 'n) collab
    \<Rightarrow> optimizer \<Rightarrow> bool \<Rightarrow> bool \<Rightarrow> (string \<rightharpoonup> 'sc) \<Rightarrow> string \<Rightarrow> 's
    \<Rightarrow> ('a, 'lo, 'n, 'sc) train_state \<Rightarrow> error + ('a, 'lo, 'n, 'sc) train_state" where
  "train_pair a c optimizer ignore_grad scored normed lang_pair b st =
     (case (if scored \<and> select_by_dds_epoch a < 0
            then (case normed lang_pair of None \<Rightarrow> Inl KeyError | Some s \<Rightarrow> Inr (Some s))
            else Inr None) of
        Inl e \<Rightarrow> Inl e
      | Inr score \<Rightarrow>
          (case models c lang_pair of
             None \<Rightarrow> Inl KeyError
           | Some m \<Rightarrow>
               (case criterion c m b score (loss_copy st \<noteq> None) of
                  (loss, sample_size, logging_output, nll) \<Rightarrow>
                    (case (if ignore_grad then Inr [] else backward_calls optimizer loss) of
                       Inl e \<Rightarrow> Inl e
                     | Inr calls \<Rightarrow>
                         Inr (st\<lparr>agg_loss := agg_loss st + (if ignore_grad then loss * 0 else loss),
                                 agg_sample_size := agg_sample_size st + sample_size,
                                 agg_logging_output := (agg_logging_output st)(lang_pair \<mapsto> logging_output),
                                 loss_copy := map_option (\<lambda>d. d(lang_pair \<mapsto> nll)) (loss_copy st),
                                 backward := backward st @ calls\<rparr>)))))"

text \<open>The main loop of \<^verbatim>\<open>train_step\<close> over \<^verbatim>\<open>self.model_lang_pairs\<close>.\<close>

fun train_loop :: "task_args \<Rightarrow> ('s, 'm, 'sc, 'a :: {zero, plus, times}, 'lo, 'n) collab \<Rightarrow> 's sample
    \<Rightarrow> optimizer \<Rightarrow> bool \<Rightarrow> bool \<Rightarrow> (string \<rightharpoonup> 'sc) \<Rightarrow> string list
    \<Rightarrow> ('a, 'lo, 'n, 'sc) train_state \<Rightarrow> error + ('a, 'lo, 'n, 'sc) train_state" where
  "train_loop a c sample optimizer ignore_grad scored normed [] st = Inr st"
| "train_loop a c sample optimizer ignore_grad scored normed (lang_pair # rest) st =
     (case sample lang_pair of
        None \<Rightarrow> train_loop a c sample optimizer ignore_grad scored normed rest st
      | Some PyNone \<Rightarrow> train_loop a c sample optimizer ignore_grad scored normed rest st
      | Some (Batch b) \<Rightarrow>
          if batch_len c b = 0
          then train_loop a c sample optimizer ignore_grad scored normed rest st
          else (case train_pair a c optimizer ignore_grad scored normed lang_pair b st of
                  Inl e \<Rightarrow> Inl e
                | Inr st' \<Rightarrow> train_loop a c sample optimizer ignore_grad scored normed rest st'))"

text \<open>
  \<^verbatim>\<open>train_step\<close>: with \<^verbatim>\<open>data_actor_step_update\<close> and a data actor the two score loops run
  first; then the main loop, from zero loss, zero size and an empty logging output.
\<close>

definition train_step :: "task \<Rightarrow> ('s, 'm, 'sc, 'a :: {zero, plus, times}, 'lo, 'n) collab \<Rightarrow> 's sample
    \<Rightarrow> optimizer \<Rightarrow> bool \<Rightarrow> ('s \<Rightarrow> 'sc) option \<Rightarrow> (string \<rightharpoonup> 'n) option
    \<Rightarrow> (string \<rightharpoonup> 'sc) option \<Rightarrow> error + ('a, 'lo, 'n, 'sc) train_state" where
  "train_step self c sample optimizer ignore_grad data_actor loss_copy_arg data_actor_out_arg =
     (case (if data_actor_step_update (args self) then data_actor else None) of
        Some actor \<Rightarrow>
          (case score_loop c actor sample (model_lang_pairs self) (Map.empty, 0, 0, data_actor_out_arg) of
             Inl e \<Rightarrow> Inl e
           | Inr (data_score, sum_score, example_size, out) \<Rightarrow>
               (case normalize_loop c (out_score_type (args self)) sample data_score sum_score
                       example_size (model_lang_pairs self) Map.empty of
                  Inl e \<Rightarrow> Inl e
                | Inr normed \<Rightarrow>
                    train_loop (args self) c sample optimizer ignore_grad True normed
                      (model_lang_pairs self)
                      \<lparr>agg_loss = 0, agg_sample_size = 0, agg_logging_output = Map.empty,
                       loss_copy = loss_copy_arg, data_actor_out = out, backward = []\<rparr>))
      | None \<Rightarrow>
          train_loop (args self) c sample optimizer ignore_grad False Map.empty
            (model_lang_pairs self)
            \<lparr>agg_loss = 0, agg_sample_size = 0, agg_logging_output = Map.empty,
             loss_copy = loss_copy_arg, data_actor_out = data_actor_out_arg, backward = []\<rparr>)"

text \<open>
  An example step: batches are modelled by their number of sentences, the criterion
  returns that number as loss and as sample size, and the sample holds a batch of three
  sentences for \<^verbatim>\<open>de-en\<close> and \<^verbatim>\<open>None\<close> for \<^verbatim>\<open>fr-en\<close>.
\<close>

definition example_collab :: "(nat, unit, unit, int, nat, nat) collab" where
  "example_collab =
     \<lparr>batch_len = (\<lambda>b. b), nsentences = int,
      models = [''de-en'' \<mapsto> (), ''fr-en'' \<mapsto> ()],
      criterion = (\<lambda>m b score copy. (int b, int b, b, b)),
      score_sum = (\<lambda>s. 0), softmax_scaled = (\<lambda>s n. s), ratio_scaled = (\<lambda>s n t. s)\<rparr>"

definition example_sample :: "nat sample" where
  "example_sample = [''de-en'' \<mapsto> Batch 3, ''fr-en'' \<mapsto> PyNone]"

definition example_task :: task where
  "example_task =
     \<lparr>args = \<lparr>data_actor_step_update = False, out_score_type = ''sigmoid'', select_by_dds_epoch = -1\<rparr>,
      model_lang_pairs = [''de-en'', ''fr-en''],
      eval_lang_pairs = [''de-en'', ''fr-en'']\<rparr>"

section \<open>Verified properties\<close>

subsection \<open>batch_by_size\<close>

lemma concat_pack:
  "concat (pack num_tokens_fn max_tokens max_sentences bsz_mult indices (batches, batch, running_max))
     = concat batches @ batch @ indices"
  by (induction indices arbitrary: batches batch running_max) (simp_all add: Let_def)

lemma pack_scenario:
  "batch_by_size [0, 1, 2, 3] (\<lambda>i. [3, 5, 2, 9] ! nat i) (Some 10) (Some 3) 1 = [[0, 1], [2], [3]]"
  by (simp add: batch_by_size_def batch_by_size_fast_def mod_len_def batch_max_def Let_def)

text \<open>
  Claim C1. For a positive batch-size multiple and any limits, also absent ones, the
  batches that \<open>batch_by_size\<close> produces, concatenated in order, are the input index
  sequence: no index is lost, duplicated or reordered. (This holds for the empty
  sequence as well, which gives no batch.)
\<close>

theorem batch_by_size_concat:
  assumes "0 < bsz_mult"
  shows "concat (batch_by_size indices num_tokens_fn max_tokens max_sentences bsz_mult) = indices"
  using assms by (simp add: batch_by_size_def batch_by_size_fast_def concat_pack)

theorem batch_by_size_concat_witness:
  "(0::nat) < 1 \<and>
   batch_by_size [0, 1, 2, 3] (\<lambda>i. [3, 5, 2, 9] ! nat i) (Some 10) (Some 3) 1 = [[0, 1], [2], [3]] \<and>
   concat (batch_by_size [0, 1, 2, 3] (\<lambda>i. [3, 5, 2, 9] ! nat i) (Some 10) (Some 3) 1) = [0, 1, 2, 3]"
proof -
  have pos: "(0::nat) < 1" by simp
  have run: "batch_by_size [0, 1, 2, 3] (\<lambda>i. [3, 5, 2, 9] ! nat i) (Some 10) (Some 3) 1 = [[0, 1], [2], [3]]"
    by (simp add: batch_by_size_def batch_by_size_fast_def mod_len_def batch_max_def Let_def)
  from batch_by_size_concat [OF pos, of "[0, 1, 2, 3]" "\<lambda>i. [3, 5, 2, 9] ! nat i" "Some 10" "Some 3"] pos run
  show ?thesis by simp
qed

subsection \<open>process_bpe_symbol\<close>

lemmas bpe_defs =
  process_bpe_symbol_def ascii_def sentencepiece_def space_def sp_marker_def
  py_replace_def py_rstrip_def py_strip_def py_isspace_def

text \<open>
  Claim C8, as stated, fails on its first example: with the symbol \<^verbatim>\<open>"@@"\<close> the marker is
  deleted and the spaces that follow it stay, so \<^verbatim>\<open>"he@@ llo@@ world"\<close> does not become
  \<^verbatim>\<open>"hello world"\<close>.
\<close>

theorem process_bpe_symbol_at_counterexample:
  "process_bpe_symbol (ascii ''he@@ llo@@ world'') (Some (ascii ''@@'')) \<noteq> ascii ''hello world''"
  by (simp add: bpe_defs)

text \<open>
  Claim C8, amended. \<open>process_bpe_symbol\<close> applied to \<^verbatim>\<open>"he@@ llo@@ world"\<close> with the
  symbol \<^verbatim>\<open>"@@"\<close> returns \<^verbatim>\<open>"he llo world"\<close>, and applied to the sentence of the code
  points U+2581 h e space U+2581 l l o with the symbol \<^verbatim>\<open>"sentencepiece"\<close> it returns
  \<^verbatim>\<open>"he llo"\<close>.
\<close>

theorem process_bpe_symbol_examples:
  "process_bpe_symbol (ascii ''he@@ llo@@ world'') (Some (ascii ''@@'')) = ascii ''he llo world'' \<and>
   process_bpe_symbol ([9601] @ ascii ''he '' @ [9601] @ ascii ''llo'') (Some sentencepiece) = ascii ''he llo''"
  by (simp add: bpe_defs)

subsection \<open>collate_tokens\<close>

lemma fold_max_mono: "m0 \<le> fold (\<lambda>v m. max m (length v)) vs (m0::nat)"
proof (induction vs arbitrary: m0)
  case Nil
  show ?case by simp
next
  case (Cons v vs)
  have "m0 \<le> max m0 (length v)" by simp
  also have "\<dots> \<le> fold (\<lambda>v m. max m (length v)) vs (max m0 (length v))" by (rule Cons.IH)
  finally show ?case by simp
qed

lemma fold_max_upper: "v \<in> set vs \<Longrightarrow> length v \<le> fold (\<lambda>v m. max m (length v)) vs (m0::nat)"
proof (induction vs arbitrary: m0)
  case Nil
  then show ?case by simp
next
  case (Cons w ws)
  show ?case
  proof (cases "v = w")
    case True
    have "length w \<le> max m0 (length w)" by simp
    also have "\<dots> \<le> fold (\<lambda>v m. max m (length v)) ws (max m0 (length w))" by (rule fold_max_mono)
    finally show ?thesis using True by simp
  next
    case False
    with Cons.prems have "v \<in> set ws" by simp
    then have "length v \<le> fold (\<lambda>v m. max m (length v)) ws (max m0 (length w))" by (rule Cons.IH)
    then show ?thesis by simp
  qed
qed

lemma fold_max_attained:
  "fold (\<lambda>v m. max m (length v)) vs (m0::nat) = m0 \<or> fold (\<lambda>v m. max m (length v)) vs m0 \<in> length ` set vs"
proof (induction vs arbitrary: m0)
  case Nil
  show ?case by simp
next
  case (Cons w ws)
  from Cons.IH [of "max m0 (length w)"] show ?case
    by (cases "m0 \<le> length w") (auto simp: max_def)
qed


lemma max_size_Max:
  assumes "values \<noteq> []"
  shows "max_size values = Max (length ` set values)"
proof -
  let ?m = "fold (\<lambda>v m. max m (length v)) values (0::nat)"
  have upper: "\<forall>n \<in> length ` set values. n \<le> ?m"
    by (auto intro: fold_max_upper)
  have "?m \<in> length ` set values"
  proof (cases "?m = 0")
    case True
    from assms obtain v where v: "v \<in> set values" by (cases "values") auto
    then have "length v \<le> ?m" by (rule fold_max_upper)
    with True have "length v = ?m" by simp
    with v show ?thesis by (metis imageI)
  next
    case False
    with fold_max_attained [of "values" 0] show ?thesis by simp
  qed
  with upper have "Max (length ` set values) = ?m"
    by (intro Max_eqI) auto
  then show ?thesis by (simp add: max_size_def)
qed

lemma collate_rows_step:
  assumes "res ! i = replicate sz pad_idx" and "length v \<le> sz"
  shows "collate_rows left_pad False eos_idx sz i (v # vs) res
         = collate_rows left_pad False eos_idx sz (Suc i) vs (res[i := padded left_pad sz pad_idx v])"
  using assms by (simp add: Let_def copy_tensor_def padded_def)

lemma collate_rows_copy:
  assumes "\<forall>v \<in> set vs. length v \<le> sz"
    and "length done = i"
  shows "collate_rows left_pad False eos_idx sz i vs
           (done @ replicate (length vs) (replicate sz pad_idx))
         = Inr (done @ map (padded left_pad sz pad_idx) vs)"
  using assms
proof (induction vs arbitrary: i "done")
  case Nil
  then show ?case by simp
next
  case (Cons v vs)
  let ?row = "replicate sz pad_idx"
  let ?new = "padded left_pad sz pad_idx v"
  let ?res = "done @ replicate (length (v # vs)) ?row"
  have len: "length v \<le> sz" using Cons.prems by simp
  have row: "?res ! i = ?row"
    using Cons.prems by (simp add: nth_append)
  have upd: "?res[i := ?new] = (done @ [?new]) @ replicate (length vs) ?row"
    using Cons.prems by (simp add: list_update_append)
  have "collate_rows left_pad False eos_idx sz i (v # vs) ?res
        = collate_rows left_pad False eos_idx sz (Suc i) vs (?res[i := ?new])"
    using row len by (rule collate_rows_step)
  also have "\<dots> = collate_rows left_pad False eos_idx sz (Suc i) vs
                     ((done @ [?new]) @ replicate (length vs) ?row)"
    by (simp only: upd)
  also have "\<dots> = Inr ((done @ [?new]) @ map (padded left_pad sz pad_idx) vs)"
    using Cons.prems by (intro Cons.IH) simp_all
  finally show ?case by simp
qed

lemma collate_tokens_padded:
  assumes "values \<noteq> []"
  shows "collate_tokens values pad_idx eos_idx left_pad False
         = Inr (map (padded left_pad (Max (length ` set values)) pad_idx) values)"
proof -
  have "\<forall>v \<in> set values. length v \<le> Max (length ` set values)"
    by simp
  from collate_rows_copy [OF this, of "[]" 0 left_pad eos_idx pad_idx] assms
  show ?thesis
    by (simp add: collate_tokens_def max_size_Max Let_def)
qed

lemma decollate_padded:
  assumes "\<forall>v \<in> set vs. length v \<le> sz"
  shows "decollate left_pad (map length vs) (map (padded left_pad sz pad_idx) vs) = vs"
  using assms by (induction vs) (simp_all add: decollate_def padded_def)

text \<open>
  Claim C7. For every non-empty list of sequences (empty sequences included) and with
  \<^verbatim>\<open>move_eos_to_beginning\<close> false, \<open>collate_tokens\<close> returns a batch with one row per
  sequence; every row has the maximum input length as its width and is its sequence with
  \<^verbatim>\<open>pad_idx\<close> filled in on the left or on the right as \<^verbatim>\<open>left_pad\<close> says; and truncating
  each row back to the original length gives the input sequences again, in both modes.
\<close>

theorem collate_tokens_round_trip:
  assumes "values \<noteq> []"
  shows "\<exists>res. collate_tokens values pad_idx eos_idx left_pad False = Inr res
           \<and> length res = length values
           \<and> (\<forall>i < length values.
                 length (res ! i) = Max (length ` set values)
                 \<and> res ! i = (if left_pad
                      then replicate (Max (length ` set values) - length (values ! i)) pad_idx @ values ! i
                      else values ! i @ replicate (Max (length ` set values) - length (values ! i)) pad_idx))
           \<and> decollate left_pad (map length values) res = values"
proof -
  let ?sz = "Max (length ` set values)"
  let ?res = "map (padded left_pad ?sz pad_idx) values"
  have le: "\<forall>v \<in> set values. length v \<le> ?sz" by simp
  have run: "collate_tokens values pad_idx eos_idx left_pad False = Inr ?res"
    using assms by (rule collate_tokens_padded)
  have rows: "\<forall>i < length values.
                 length (?res ! i) = ?sz
                 \<and> ?res ! i = (if left_pad
                      then replicate (?sz - length (values ! i)) pad_idx @ values ! i
                      else values ! i @ replicate (?sz - length (values ! i)) pad_idx)"
    using le by (auto simp: padded_def)
  have rt: "decollate left_pad (map length values) ?res = values"
    using le by (rule decollate_padded)
  from run rows rt show ?thesis by simp
qed

theorem collate_tokens_round_trip_witness:
  "[[1, 2, 3], [4], [5, 6]] \<noteq> ([] :: int list list)
   \<and> collate_tokens [[1, 2, 3], [4], [5, 6]] 0 None True False = Inr [[1, 2, 3], [0, 0, 4], [0, 5, 6]]
   \<and> decollate True (map length [[1, 2, 3], [4], [5, 6 :: int]]) [[1, 2, 3], [0, 0, 4], [0, 5, 6]]
       = [[1, 2, 3], [4], [5, 6]]
   \<and> collate_tokens [[1, 2, 3], [4], [5, 6]] 0 None False False = Inr [[1, 2, 3], [4, 0, 0], [5, 6, 0]]
   \<and> decollate False (map length [[1, 2, 3], [4], [5, 6 :: int]]) [[1, 2, 3], [4, 0, 0], [5, 6, 0]]
       = [[1, 2, 3], [4], [5, 6]]"
proof -
  have ne: "[[1, 2, 3], [4], [5, 6]] \<noteq> ([] :: int list list)" by simp
  have l: "collate_tokens [[1, 2, 3], [4], [5, 6]] 0 None True False = Inr [[1, 2, 3], [0, 0, 4], [0, 5, 6]]"
    by (simp add: collate_tokens_def max_size_def copy_tensor_def Let_def)
  have r: "collate_tokens [[1, 2, 3], [4], [5, 6]] 0 None False False = Inr [[1, 2, 3], [4, 0, 0], [5, 6, 0]]"
    by (simp add: collate_tokens_def max_size_def copy_tensor_def Let_def)
  obtain resl where "collate_tokens [[1, 2, 3], [4], [5, 6]] 0 None True False = Inr resl"
    and "decollate True (map length [[1, 2, 3], [4], [5, 6 :: int]]) resl = [[1, 2, 3], [4], [5, 6]]"
    using collate_tokens_round_trip [OF ne, of 0 None True] by blast
  with l have dl: "decollate True (map length [[1, 2, 3], [4], [5, 6 :: int]]) [[1, 2, 3], [0, 0, 4], [0, 5, 6]]
       = [[1, 2, 3], [4], [5, 6]]"
    by simp
  obtain resr where "collate_tokens [[1, 2, 3], [4], [5, 6]] 0 None False False = Inr resr"
    and "decollate False (map length [[1, 2, 3], [4], [5, 6 :: int]]) resr = [[1, 2, 3], [4], [5, 6]]"
    using collate_tokens_round_trip [OF ne, of 0 None False] by blast
  with r have dr: "decollate False (map length [[1, 2, 3], [4], [5, 6 :: int]]) [[1, 2, 3], [4, 0, 0], [5, 6, 0]]
       = [[1, 2, 3], [4], [5, 6]]"
    by simp
  show ?thesis
    by (intro conjI ne l r dl dr)
qed

subsection \<open>Size filtering\<close>

lemma collect_filtered_skip:
  assumes "collect_filtered f xs a False h = Inr (ys, h')"
  shows "ys = filter (\<lambda>i. f i = Inr True) xs
         \<and> h' = h[a := h ! a @ filter (\<lambda>i. f i = Inr False) xs]
         \<and> (\<forall>i \<in> set xs. \<exists>b. f i = Inr b)"
  using assms
proof (induction xs arbitrary: h ys h')
  case Nil
  then show ?case by simp
next
  case (Cons x xs)
  from Cons.prems obtain b where fx: "f x = Inr b"
    by (cases "f x") simp_all
  show ?case
  proof (cases b)
    case True
    with fx Cons.prems obtain zs where rest: "collect_filtered f xs a False h = Inr (zs, h')"
      and ys: "ys = x # zs"
      by (auto split: sum.splits)
    from Cons.IH [OF rest] ys fx True show ?thesis by auto
  next
    case False
    with fx Cons.prems
    have rest: "collect_filtered f xs a False (h[a := h ! a @ [x]]) = Inr (ys, h')"
      by simp
    from Cons.IH [OF rest] fx False show ?thesis
      by (cases "a < length h") (auto simp: list_update_beyond)
  qed
qed

lemma collect_filtered_returns:
  assumes "\<forall>i \<in> set xs. \<exists>b. f i = Inr b"
  shows "\<exists>ys h'. collect_filtered f xs a noskip h = Inr (ys, h')"
  using assms
proof (induction xs arbitrary: h)
  case Nil
  show ?case by simp
next
  case (Cons x xs)
  then obtain b where fx: "f x = Inr b" by auto
  from Cons.prems have all: "\<forall>i \<in> set xs. \<exists>b. f i = Inr b" by simp
  show ?case
  proof (cases "b \<or> noskip")
    case True
    from Cons.IH [OF all, of h] obtain ys h' where "collect_filtered f xs a noskip h = Inr (ys, h')"
      by blast
    with fx True show ?thesis by simp
  next
    case False
    from Cons.IH [OF all, of "h[a := h ! a @ [x]]"] fx False show ?thesis by simp
  qed
qed

lemma collect_filtered_noskip:
  assumes "collect_filtered f xs a True h = Inr (ys, h')"
  shows "ys = xs \<and> h' = h \<and> (\<forall>i \<in> set xs. \<exists>b. f i = Inr b)"
  using assms
proof (induction xs arbitrary: ys)
  case Nil
  then show ?case by simp
next
  case (Cons x xs)
  from Cons.prems obtain b where fx: "f x = Inr b"
    by (cases "f x") simp_all
  with Cons.prems obtain zs where rest: "collect_filtered f xs a True h = Inr (zs, h')"
    and ys: "ys = x # zs"
    by (auto split: sum.splits)
  from Cons.IH [OF rest] ys fx show ?case by auto
qed

lemma collect_filtered_error:
  assumes "collect_filtered f xs a noskip h = Inl e"
  shows "\<exists>i \<in> set xs. f i = Inl e"
  using assms
proof (induction xs arbitrary: h)
  case Nil
  then show ?case by simp
next
  case (Cons x xs)
  show ?case
  proof (cases "f x")
    case (Inl e')
    with Cons.prems show ?thesis by simp
  next
    case (Inr b)
    show ?thesis
    proof (cases "b \<or> noskip")
      case True
      with Inr Cons.prems have "collect_filtered f xs a noskip h = Inl e"
        by (auto split: sum.splits)
      from Cons.IH [OF this] show ?thesis by simp
    next
      case False
      with Inr Cons.prems have "collect_filtered f xs a noskip (h[a := h ! a @ [x]]) = Inl e"
        by simp
      from Cons.IH [OF this] show ?thesis by simp
    qed
  qed
qed

lemma filter_by_size_dynamic_skip:
  assumes "filter_by_size_dynamic indices size_fn max_positions False = Inr (ks, ig)"
  shows "ks = filter (\<lambda>i. check_size max_positions (size_fn i) = Inr True) indices
         \<and> ig = filter (\<lambda>i. check_size max_positions (size_fn i) = Inr False) indices
         \<and> (\<forall>i \<in> set indices. \<exists>b. check_size max_positions (size_fn i) = Inr b)"
proof -
  let ?f = "\<lambda>idx. check_size max_positions (size_fn idx)"
  from assms obtain h3 where run: "collect_filtered ?f indices 0 False [[]] = Inr (ks, h3)"
    and ig: "ig = h3 ! 0"
    by (auto simp: filter_by_size_dynamic_def alloc_def split: sum.splits)
  from collect_filtered_skip [OF run] ig show ?thesis by simp
qed

lemma filter_by_size_dynamic_noskip:
  assumes "filter_by_size_dynamic indices size_fn max_positions True = Inr (ks, ig)"
  shows "ks = indices \<and> ig = []
         \<and> (\<forall>i \<in> set indices. \<exists>b. check_size max_positions (size_fn i) = Inr b)"
proof -
  let ?f = "\<lambda>idx. check_size max_positions (size_fn idx)"
  from assms obtain h3 where run: "collect_filtered ?f indices 0 True [[], []] = Inr (ks, h3)"
    and ig: "ig = h3 ! 1"
    by (auto simp: filter_by_size_dynamic_def alloc_def split: sum.splits)
  from collect_filtered_noskip [OF run] ig show ?thesis by simp
qed

lemma filter_by_size_dynamic_returns:
  assumes "\<forall>i \<in> set indices. \<exists>b. check_size max_positions (size_fn i) = Inr b"
  shows "\<exists>ks ig. filter_by_size_dynamic indices size_fn max_positions noskip = Inr (ks, ig)"
proof -
  let ?f = "\<lambda>idx. check_size max_positions (size_fn idx)"
  show ?thesis
  proof (cases noskip)
    case True
    from collect_filtered_returns [OF assms, of 0 True "[[], []]"]
    obtain ys h' where "collect_filtered ?f indices 0 True [[], []] = Inr (ys, h')"
      by blast
    with True show ?thesis
      by (simp add: filter_by_size_dynamic_def alloc_def)
  next
    case False
    from collect_filtered_returns [OF assms, of 0 False "[[]]"]
    obtain ys h' where "collect_filtered ?f indices 0 False [[]] = Inr (ys, h')"
      by blast
    with False show ?thesis
      by (simp add: filter_by_size_dynamic_def alloc_def)
  qed
qed

lemma filter_by_size_dynamic_error:
  assumes "filter_by_size_dynamic indices size_fn max_positions noskip = Inl e"
  shows "\<exists>i \<in> set indices. check_size max_positions (size_fn i) = Inl e"
proof -
  let ?f = "\<lambda>idx. check_size max_positions (size_fn idx)"
  from assms have "collect_filtered ?f indices 0 noskip (if noskip then [[], []] else [[]]) = Inl e"
    by (auto simp: filter_by_size_dynamic_def alloc_def split: sum.splits if_splits)
  then show ?thesis by (rule collect_filtered_error)
qed

lemma np_mask_take:
  assumes "np_take a is = Inr s"
  shows "np_mask is (map P s) = filter (\<lambda>i. \<exists>x. np_get a i = Inr x \<and> P x) is
         \<and> (\<forall>i \<in> set is. \<exists>x. np_get a i = Inr x)"
  using assms
proof (induction "is" arbitrary: s)
  case Nil
  then show ?case by (simp add: np_mask_def)
next
  case (Cons i "is")
  from Cons.prems obtain x xs where gi: "np_get a i = Inr x" and rest: "np_take a is = Inr xs"
    and s: "s = x # xs"
    by (auto split: sum.splits)
  from Cons.IH [OF rest] have "np_mask is (map P xs) = filter (\<lambda>i. \<exists>x. np_get a i = Inr x \<and> P x) is"
    and "\<forall>i \<in> set is. \<exists>x. np_get a i = Inr x"
    by simp_all
  with gi s show ?case by (simp add: np_mask_def)
qed

lemma np_take_returns:
  assumes "\<forall>i \<in> set is. \<exists>x. np_get a i = Inr x"
  shows "\<exists>s. np_take a is = Inr s"
  using assms by (induction "is") auto

lemma np_take_error: "np_take a is = Inl e \<Longrightarrow> e = IndexError"
  by (induction "is") (auto simp: np_get_def Let_def split: sum.splits if_splits)

lemma filter_by_sizes_array_skip:
  assumes "filter_by_sizes_array indices a m = Inr (ks, ig)"
  shows "ks = filter (\<lambda>i. (case np_get a i of Inl e \<Rightarrow> Inl e | Inr x \<Rightarrow> Inr (x \<le> m)) = Inr True) indices
         \<and> ig = filter (\<lambda>i. (case np_get a i of Inl e \<Rightarrow> Inl e | Inr x \<Rightarrow> Inr (x \<le> m)) = Inr False) indices
         \<and> (\<forall>i \<in> set indices. \<exists>b. (case np_get a i of Inl e \<Rightarrow> Inl e | Inr x \<Rightarrow> Inr (x \<le> m)) = Inr b)"
proof -
  from assms obtain s where s: "np_take a indices = Inr s"
    and ks: "ks = np_mask indices (map (\<lambda>x. x \<le> m) s)"
    and ig: "ig = np_mask indices (map (\<lambda>x. m < x) s)"
    by (auto simp: filter_by_sizes_array_def split: sum.splits)
  have eq1: "(\<lambda>i. \<exists>x. np_get a i = Inr x \<and> x \<le> m)
             = (\<lambda>i. (case np_get a i of Inl e \<Rightarrow> Inl e | Inr x \<Rightarrow> Inr (x \<le> m)) = Inr True)"
    by (rule ext) (simp split: sum.splits)
  have eq2: "(\<lambda>i. \<exists>x. np_get a i = Inr x \<and> m < x)
             = (\<lambda>i. (case np_get a i of Inl e \<Rightarrow> Inl e | Inr x \<Rightarrow> Inr (x \<le> m)) = Inr False)"
    by (rule ext) (auto split: sum.splits)
  from np_mask_take [OF s, of "\<lambda>x. x \<le> m"] np_mask_take [OF s, of "\<lambda>x. m < x"] ks ig
  show ?thesis
    unfolding eq1 eq2 by (auto split: sum.splits)
qed

lemma filter_by_size_parts_skip:
  assumes "filter_by_size_parts indices dataset max_positions False = Inr (ks, ig)"
  shows "ks = filter (\<lambda>i. size_ok dataset max_positions i = Inr True) indices
         \<and> ig = filter (\<lambda>i. size_ok dataset max_positions i = Inr False) indices
         \<and> (\<forall>i \<in> set indices. \<exists>b. size_ok dataset max_positions i = Inr b)"
proof (cases max_positions)
  case (LNum m)
  show ?thesis
  proof (cases "sizes dataset")
    case NoSizes
    with LNum assms filter_by_size_dynamic_skip [of indices "size_of dataset" "LNum m" ks ig]
    show ?thesis by simp
  next
    case (SizesArray a)
    with LNum assms filter_by_sizes_array_skip [of indices a m ks ig]
    show ?thesis by simp
  next
    case (SizesList as)
    show ?thesis
    proof (cases as rule: remdups_adj.cases)
      case 1
      with SizesList LNum assms filter_by_size_dynamic_skip [of indices "size_of dataset" "LNum m" ks ig]
      show ?thesis by simp
    next
      case (2 a)
      with SizesList LNum assms filter_by_sizes_array_skip [of indices a m ks ig]
      show ?thesis by simp
    next
      case (3 a b r)
      with SizesList LNum assms filter_by_size_dynamic_skip [of indices "size_of dataset" "LNum m" ks ig]
      show ?thesis by simp
    qed
  qed
next
  case (LTup t)
  with assms filter_by_size_dynamic_skip [of indices "size_of dataset" "LTup t" ks ig]
  show ?thesis by simp
next
  case (LDict d)
  with assms filter_by_size_dynamic_skip [of indices "size_of dataset" "LDict d" ks ig]
  show ?thesis by simp
qed

lemma filter_by_size_parts_dynamic:
  assumes "dynamic_path dataset max_positions"
  shows "filter_by_size_parts indices dataset max_positions noskip
         = filter_by_size_dynamic indices (size_of dataset) max_positions noskip"
proof (cases max_positions)
  case (LNum m)
  show ?thesis
  proof (cases "sizes dataset")
    case NoSizes
    with LNum show ?thesis by simp
  next
    case (SizesArray a)
    with LNum assms show ?thesis by simp
  next
    case (SizesList as)
    with LNum assms show ?thesis
      by (cases as rule: remdups_adj.cases) simp_all
  qed
next
  case (LTup t)
  then show ?thesis by simp
next
  case (LDict d)
  then show ?thesis by simp
qed

lemma all_e_error: "all_e xs = Inl e \<Longrightarrow> Inl e \<in> set xs"
  by (induction xs rule: all_e.induct) (auto split: if_splits)

lemma fval_le_opt_error: "fval_le_opt a b = Inl e \<Longrightarrow> e = TypeError"
  by (cases "(a, b)" rule: fval_le_opt.cases) auto

lemma key_ok_error: "key_ok mp d key = Inl e \<Longrightarrow> e = TypeError \<or> e = KeyError"
  by (cases "map_of d key"; cases "map_of mp key";
      cases "the (map_of d key)"; cases "the (map_of mp key)")
     (auto simp: key_ok_def)

lemma check_size_error:
  assumes "check_size max_positions s = Inl e"
  shows "e \<in> {AttributeError, IndexError, TypeError, AssertionError, KeyError}"
  using assms
proof (induction max_positions s rule: check_size.induct)
  case (7 mp d)
  then have "all_e (map (key_ok mp d) (intersect_keys mp d)) = Inl e"
    by simp
  then have "Inl e \<in> set (map (key_ok mp d) (intersect_keys mp d))"
    by (rule all_e_error)
  then obtain key where "key_ok mp d key = Inl e" by auto
  from key_ok_error [OF this] show ?case by auto
next
  case (10 mp d)
  then have "all_e (map (\<lambda>(a, b). fval_le_opt a b) (zip (map snd d) mp)) = Inl e"
    by simp
  then have "Inl e \<in> set (map (\<lambda>(a, b). fval_le_opt a b) (zip (map snd d) mp))"
    by (rule all_e_error)
  then obtain a b where "fval_le_opt a b = Inl e" by auto
  from fval_le_opt_error [OF this] show ?case by simp
next
  case (11 mp s)
  then have "all_e (map (\<lambda>b. case b of None \<Rightarrow> Inl TypeError | Some y \<Rightarrow> Inr (s \<le> y)) mp) = Inl e"
    by simp
  then have "Inl e \<in> set (map (\<lambda>b. case b of None \<Rightarrow> Inl TypeError | Some y \<Rightarrow> Inr (s \<le> y)) mp)"
    by (rule all_e_error)
  then show ?case by (auto split: option.splits)
qed simp_all

lemma filter_by_size_returns:
  assumes "\<forall>i \<in> set indices. \<exists>b. size_ok dataset max_positions i = Inr b"
  shows "\<exists>out. filter_by_size indices dataset max_positions False noskip = Inr out"
proof -
  have "\<exists>ks ig. filter_by_size_parts indices dataset max_positions noskip = Inr (ks, ig)"
  proof (cases "dynamic_path dataset max_positions")
    case True
    have "size_ok dataset max_positions i = check_size max_positions (size_of dataset i)" for i
      using True
      by (cases max_positions; cases "sizes dataset";
          cases "case sizes dataset of SizesList as \<Rightarrow> as | _ \<Rightarrow> []" rule: remdups_adj.cases)
         simp_all
    with assms filter_by_size_dynamic_returns [of indices max_positions "size_of dataset" noskip]
    show ?thesis by (simp add: filter_by_size_parts_dynamic [OF True])
  next
    case False
    then obtain m a where mp: "max_positions = LNum m"
      and arr: "sizes dataset = SizesArray a \<or> sizes dataset = SizesList [a]"
      by (cases max_positions; cases "sizes dataset";
          cases "case sizes dataset of SizesList as \<Rightarrow> as | _ \<Rightarrow> []" rule: remdups_adj.cases)
         simp_all
    with assms have "\<forall>i \<in> set indices. \<exists>x. np_get a i = Inr x"
      by (auto split: sum.splits)
    from np_take_returns [OF this] obtain s where "np_take a indices = Inr s" by blast
    with mp arr show ?thesis
      by (auto simp: filter_by_sizes_array_def)
  qed
  then show ?thesis
    by (auto simp: filter_by_size_def)
qed

text \<open>
  Claim C2. Whenever \<open>filter_by_size\<close>, called without \<^verbatim>\<open>noskip\<close>, returns, the sequence
  it returns and the list of the indices it dropped are both subsequences of the input
  (so a subset of it, in input order); the kept indices are exactly those for which the
  limit predicate holds and the dropped ones exactly those for which it fails; and the
  warning reports the dropped ones. (It returns whenever the predicate can be evaluated
  on every index and no exception was asked for, see \<open>filter_by_size_returns\<close>.)
\<close>

theorem filter_by_size_kept_dropped:
  assumes "filter_by_size indices dataset max_positions raise_exception False = Inr out"
  shows "\<exists>ignored.
           filter_by_size_parts indices dataset max_positions False = Inr (kept out, ignored)
           \<and> subseq (kept out) indices \<and> subseq ignored indices
           \<and> kept out = filter (\<lambda>i. size_ok dataset max_positions i = Inr True) indices
           \<and> ignored = filter (\<lambda>i. size_ok dataset max_positions i = Inr False) indices
           \<and> (\<forall>i \<in> set (kept out). size_ok dataset max_positions i = Inr True)
           \<and> (\<forall>i \<in> set ignored. size_ok dataset max_positions i = Inr False)
           \<and> warning out = (if ignored = [] then None else Some (length ignored, take 10 ignored))"
proof -
  from assms obtain ks ig where parts: "filter_by_size_parts indices dataset max_positions False = Inr (ks, ig)"
    and out: "out = \<lparr>kept = ks, warning = (if 0 < length ig then Some (length ig, take 10 ig) else None)\<rparr>"
    by (auto simp: filter_by_size_def split: sum.splits if_splits)
  from filter_by_size_parts_skip [OF parts]
  have ks: "ks = filter (\<lambda>i. size_ok dataset max_positions i = Inr True) indices"
    and ig: "ig = filter (\<lambda>i. size_ok dataset max_positions i = Inr False) indices"
    by simp_all
  have k: "kept out = ks"
    and w: "warning out = (if ig = [] then None else Some (length ig, take 10 ig))"
    using out by simp_all
  show ?thesis
  proof (intro exI [of _ ig] conjI)
    show "filter_by_size_parts indices dataset max_positions False = Inr (kept out, ig)"
      using parts by (simp only: k)
    show "subseq (kept out) indices"
      by (simp only: k ks subseq_filter_left)
    show "subseq ig indices"
      by (subst ig) (rule subseq_filter_left)
    show "kept out = filter (\<lambda>i. size_ok dataset max_positions i = Inr True) indices"
      using ks by (simp only: k)
    show "ig = filter (\<lambda>i. size_ok dataset max_positions i = Inr False) indices"
      by (rule ig)
    show "\<forall>i \<in> set (kept out). size_ok dataset max_positions i = Inr True"
      by (simp add: k ks)
    show "\<forall>i \<in> set ig. size_ok dataset max_positions i = Inr False"
      by (subst ig) simp
    show "warning out = (if ig = [] then None else Some (length ig, take 10 ig))"
      by (rule w)
  qed
qed

theorem filter_by_size_kept_dropped_witness:
  "filter_by_size [0, 1, 2, 3] scalar_sized (LNum 4) False False
     = Inr \<lparr>kept = [0, 1], warning = Some (2, [2, 3])\<rparr>
   \<and> filter_by_size_parts [0, 1, 2, 3] scalar_sized (LNum 4) False = Inr ([0, 1], [2, 3])
   \<and> subseq [0, 1] [0, 1, 2, 3 :: int]
   \<and> [0, 1] = filter (\<lambda>i. size_ok scalar_sized (LNum 4) i = Inr True) [0, 1, 2, 3]
   \<and> [2, 3] = filter (\<lambda>i. size_ok scalar_sized (LNum 4) i = Inr False) [0, 1, 2, 3]"
proof -
  have run: "filter_by_size [0, 1, 2, 3] scalar_sized (LNum 4) False False
               = Inr \<lparr>kept = [0, 1], warning = Some (2, [2, 3])\<rparr>"
    by (simp add: filter_by_size_def filter_by_size_dynamic_def alloc_def scalar_sized_def)
  have parts: "filter_by_size_parts [0, 1, 2, 3] scalar_sized (LNum 4) False = Inr ([0, 1], [2, 3])"
    by (simp add: filter_by_size_dynamic_def alloc_def scalar_sized_def)
  have sel: "kept \<lparr>kept = [0, 1], warning = Some (2, [2, 3])\<rparr> = [0, 1]"
    by simp
  from filter_by_size_kept_dropped [OF run] obtain ignored
    where p: "filter_by_size_parts [0, 1, 2, 3] scalar_sized (LNum 4) False = Inr ([0, 1], ignored)"
      and s: "subseq [0, 1] [0, 1, 2, 3 :: int]"
      and k: "[0, 1] = filter (\<lambda>i. size_ok scalar_sized (LNum 4) i = Inr True) [0, 1, 2, 3]"
      and g: "ignored = filter (\<lambda>i. size_ok scalar_sized (LNum 4) i = Inr False) [0, 1, 2, 3]"
    unfolding sel by (elim exE conjE)
  from p parts have "ignored = [2, 3]" by simp
  with g have g': "[2, 3] = filter (\<lambda>i. size_ok scalar_sized (LNum 4) i = Inr False) [0, 1, 2, 3]"
    by (simp only:)
  show ?thesis
    by (intro conjI run parts s k g')
qed

text \<open>
  Claim C10. On the dynamic path with \<^verbatim>\<open>noskip\<close> set, whenever the size check can be
  evaluated on every index (its own exceptions still propagate), every input index is
  returned, also those that violate the limit, the list of ignored indices is empty and
  no warning is printed, whatever \<^verbatim>\<open>raise_exception\<close> is; and on no input at all does the
  call raise the exception of \<^verbatim>\<open>raise_exception\<close>.
\<close>

theorem filter_by_size_noskip:
  assumes "dynamic_path dataset max_positions"
  shows "((\<forall>i \<in> set indices. \<exists>b. check_size max_positions (size_of dataset i) = Inr b) \<longrightarrow>
            filter_by_size_parts indices dataset max_positions True = Inr (indices, [])
            \<and> filter_by_size indices dataset max_positions raise_exception True
                = Inr \<lparr>kept = indices, warning = None\<rparr>)
         \<and> (\<forall>i. filter_by_size indices dataset max_positions raise_exception True
                  \<noteq> Inl (SizeException i))"
proof -
  let ?dyn = "filter_by_size_dynamic indices (size_of dataset) max_positions True"
  have parts: "filter_by_size_parts indices dataset max_positions True = ?dyn"
    using assms by (rule filter_by_size_parts_dynamic)
  have ok: "filter_by_size_parts indices dataset max_positions True = Inr (indices, [])
            \<and> filter_by_size indices dataset max_positions raise_exception True
                = Inr \<lparr>kept = indices, warning = None\<rparr>"
    if "\<forall>i \<in> set indices. \<exists>b. check_size max_positions (size_of dataset i) = Inr b"
  proof -
    from filter_by_size_dynamic_returns [OF that, of True]
    obtain ks ig where dyn: "?dyn = Inr (ks, ig)" by blast
    from filter_by_size_dynamic_noskip [OF dyn] have "ks = indices" and "ig = []" by simp_all
    with dyn parts show ?thesis by (simp add: filter_by_size_def)
  qed
  have no: "filter_by_size indices dataset max_positions raise_exception True \<noteq> Inl (SizeException i)" for i
  proof (cases ?dyn)
    case (Inl e)
    from filter_by_size_dynamic_error [OF Inl] obtain j
      where "check_size max_positions (size_of dataset j) = Inl e" by blast
    from check_size_error [OF this] have "e \<noteq> SizeException i" by auto
    with Inl parts show ?thesis by (simp add: filter_by_size_def)
  next
    case (Inr r)
    obtain ks ig where r: "r = (ks, ig)" by (cases r)
    from filter_by_size_dynamic_noskip [of indices "size_of dataset" max_positions ks ig] Inr r
    have "ig = []" by simp
    with Inr r parts show ?thesis by (simp add: filter_by_size_def)
  qed
  from ok no show ?thesis by blast
qed

theorem filter_by_size_noskip_witness:
  "dynamic_path scalar_sized (LNum 4)
   \<and> check_size (LNum 4) (size_of scalar_sized 0) = Inr True
   \<and> check_size (LNum 4) (size_of scalar_sized 1) = Inr True
   \<and> check_size (LNum 4) (size_of scalar_sized 2) = Inr False
   \<and> check_size (LNum 4) (size_of scalar_sized 3) = Inr False
   \<and> filter_by_size [0, 1, 2, 3] scalar_sized (LNum 4) True True
       = Inr \<lparr>kept = [0, 1, 2, 3], warning = None\<rparr>
   \<and> filter_by_size [0, 1, 2, 3] scalar_sized (LNum 4) True False = Inl (SizeException 2)"
proof -
  have dyn: "dynamic_path scalar_sized (LNum 4)"
    by (simp add: scalar_sized_def)
  have c0: "check_size (LNum 4) (size_of scalar_sized 0) = Inr True"
    and c1: "check_size (LNum 4) (size_of scalar_sized 1) = Inr True"
    and c2: "check_size (LNum 4) (size_of scalar_sized 2) = Inr False"
    and c3: "check_size (LNum 4) (size_of scalar_sized 3) = Inr False"
    by (simp_all add: scalar_sized_def)
  have chk: "\<forall>i \<in> set [0, 1, 2, 3]. \<exists>b. check_size (LNum 4) (size_of scalar_sized i) = Inr b"
    using c0 c1 c2 c3 by auto
  have strict: "filter_by_size [0, 1, 2, 3] scalar_sized (LNum 4) True False = Inl (SizeException 2)"
    by (simp add: filter_by_size_def filter_by_size_dynamic_def alloc_def scalar_sized_def)
  have all: "filter_by_size [0, 1, 2, 3] scalar_sized (LNum 4) True True
          = Inr \<lparr>kept = [0, 1, 2, 3], warning = None\<rparr>"
    by (rule filter_by_size_noskip [OF dyn, of "[0, 1, 2, 3]" True, THEN conjunct1, THEN mp, OF chk, THEN conjunct2])
  show ?thesis
    by (intro conjI dyn c0 c1 c2 c3 all strict)
qed

text \<open>
  Claim C3, as stated, fails for a tuple: every example of \<open>tuple_sized\<close> has the size
  \<open>(3, 4)\<close>, whose first field is within the limit 5, and filtering the single index 0
  does not keep it but raises \<^verbatim>\<open>AttributeError\<close>, since a tuple has no \<^verbatim>\<open>values\<close>.
\<close>

theorem scalar_limit_tuple_size_counterexample:
  "tuple_sized 0 = STup [Some 3, Some 4] \<and> (3 :: int) \<le> 5
   \<and> filter_by_size_dynamic [0] tuple_sized (LNum 5) False = Inl AttributeError"
  by (simp add: tuple_sized_def filter_by_size_dynamic_def alloc_def)

text \<open>
  Claim C3, amended. When the size limit is a scalar and the size of an index is a dict
  whose first value is a number, size filtering keeps the index if and only if that first
  value is at most the limit, and drops it otherwise. When the size of some index is a
  tuple, filtering raises an exception instead.
\<close>

theorem scalar_limit_first_field:
  "(filter_by_size_dynamic indices size_fn (LNum m) False = Inr (ks, ig)
      \<and> i \<in> set indices \<and> size_fn i = SDict ((k, FNum a) # rest)
      \<longrightarrow> (i \<in> set ks \<longleftrightarrow> a \<le> m) \<and> (i \<in> set ig \<longleftrightarrow> \<not> a \<le> m))
   \<and> ((\<exists>j \<in> set indices. \<exists>t. size_fn j = STup t)
      \<longrightarrow> (\<exists>e. filter_by_size_dynamic indices size_fn (LNum m) noskip = Inl e))"
proof -
  have first: "(i \<in> set ks \<longleftrightarrow> a \<le> m) \<and> (i \<in> set ig \<longleftrightarrow> \<not> a \<le> m)"
    if run: "filter_by_size_dynamic indices size_fn (LNum m) False = Inr (ks, ig)"
      and i: "i \<in> set indices" and sz: "size_fn i = SDict ((k, FNum a) # rest)"
  proof -
    from filter_by_size_dynamic_skip [OF run]
    have "ks = filter (\<lambda>i. check_size (LNum m) (size_fn i) = Inr True) indices"
      and "ig = filter (\<lambda>i. check_size (LNum m) (size_fn i) = Inr False) indices"
      by simp_all
    with i sz show ?thesis by simp
  qed
  have tup: "\<exists>e. filter_by_size_dynamic indices size_fn (LNum m) noskip = Inl e"
    if "\<exists>j \<in> set indices. \<exists>t. size_fn j = STup t"
  proof (cases "filter_by_size_dynamic indices size_fn (LNum m) noskip")
    case (Inl e)
    then show ?thesis by simp
  next
    case (Inr r)
    obtain ks' ig' where r: "r = (ks', ig')" by (cases r)
    have "\<forall>i \<in> set indices. \<exists>b. check_size (LNum m) (size_fn i) = Inr b"
    proof (cases noskip)
      case True
      with Inr r filter_by_size_dynamic_noskip [of indices size_fn "LNum m" ks' ig']
      show ?thesis by simp
    next
      case False
      with Inr r filter_by_size_dynamic_skip [of indices size_fn "LNum m" ks' ig']
      show ?thesis by simp
    qed
    with that show ?thesis by fastforce
  qed
  from first tup show ?thesis by blast
qed

theorem scalar_limit_first_field_witness:
  "filter_by_size_dynamic [0, 1] dict_sized (LNum 5) False = Inr ([0], [1])
   \<and> (1 :: int) \<in> set [0, 1] \<and> dict_sized 1 = SDict ((''source'', FNum 10) # [(''target'', FNum 1)])
   \<and> ((1 :: int) \<in> set [0] \<longleftrightarrow> (10 :: int) \<le> 5) \<and> ((1 :: int) \<in> set [1] \<longleftrightarrow> \<not> (10 :: int) \<le> 5)
   \<and> tuple_sized 0 = STup [Some 3, Some 4]
   \<and> (\<exists>e. filter_by_size_dynamic [0] tuple_sized (LNum 5) True = Inl e)"
proof -
  have run: "filter_by_size_dynamic [0, 1] dict_sized (LNum 5) False = Inr ([0], [1])"
    by (simp add: dict_sized_def filter_by_size_dynamic_def alloc_def)
  have i: "(1 :: int) \<in> set [0, 1]" by simp
  have sz: "dict_sized 1 = SDict ((''source'', FNum 10) # [(''target'', FNum 1)])"
    by (simp add: dict_sized_def)
  have tz: "tuple_sized 0 = STup [Some 3, Some 4]"
    by (simp add: tuple_sized_def)
  have tup: "\<exists>j \<in> set [0 :: int]. \<exists>t. tuple_sized j = STup t"
    by (simp add: tuple_sized_def)
  have a: "((1 :: int) \<in> set [0] \<longleftrightarrow> (10 :: int) \<le> 5) \<and> ((1 :: int) \<in> set [1] \<longleftrightarrow> \<not> (10 :: int) \<le> 5)"
    by (rule scalar_limit_first_field [of "[0, 1]" dict_sized 5 "[0]" "[1]" 1 "''source''" 10
          "[(''target'', FNum 1)]", THEN conjunct1, THEN mp, OF conjI [OF run conjI [OF i sz]]])
  have b: "\<exists>e. filter_by_size_dynamic [0] tuple_sized (LNum 5) True = Inl e"
    by (rule scalar_limit_first_field [of "[0]" tuple_sized 5 "[]" "[]" 0 "[]" 0 "[]" True,
          THEN conjunct2, THEN mp, OF tup])
  show ?thesis
    by (intro conjI run i sz a [THEN conjunct1] a [THEN conjunct2] tz b)
qed

subsection \<open>train_step and valid_step\<close>

lemma valid_loop_skip:
  assumes "absent (batch_len c) sample lp"
  shows "valid_loop c sample xs acc = valid_loop c sample (removeAll lp xs) acc"
  using assms
proof (induction xs arbitrary: acc)
  case Nil
  show ?case by simp
next
  case (Cons x xs)
  show ?case
  proof (cases "x = lp")
    case True
    with Cons show ?thesis
      by (auto simp: absent_def split: option.splits entry.splits)
  next
    case False
    with Cons show ?thesis
      by (auto split: option.splits entry.splits sum.splits)
  qed
qed

lemma score_loop_skip:
  assumes "absent (batch_len c) sample lp"
  shows "score_loop c actor sample xs st = score_loop c actor sample (removeAll lp xs) st"
  using assms
proof (induction xs arbitrary: st)
  case Nil
  show ?case by simp
next
  case (Cons x xs)
  obtain ds ss es out where st: "st = (ds, ss, es, out)" by (cases st)
  show ?case
  proof (cases "x = lp")
    case True
    with Cons st show ?thesis
      by (auto simp: absent_def split: option.splits entry.splits)
  next
    case False
    with Cons st show ?thesis
      by (auto split: option.splits entry.splits)
  qed
qed

lemma normalize_loop_skip:
  assumes "absent (batch_len c) sample lp"
  shows "normalize_loop c ty sample ds ss es xs normed
         = normalize_loop c ty sample ds ss es (removeAll lp xs) normed"
  using assms
proof (induction xs arbitrary: normed)
  case Nil
  show ?case by simp
next
  case (Cons x xs)
  show ?case
  proof (cases "x = lp")
    case True
    with Cons show ?thesis
      by (auto simp: absent_def split: option.splits entry.splits)
  next
    case False
    with Cons show ?thesis
      by (auto split: option.splits entry.splits)
  qed
qed

lemma train_loop_skip:
  assumes "absent (batch_len c) sample lp"
  shows "train_loop a c sample opt ig scored normed xs st
         = train_loop a c sample opt ig scored normed (removeAll lp xs) st"
  using assms
proof (induction xs arbitrary: st)
  case Nil
  show ?case by simp
next
  case (Cons x xs)
  show ?case
  proof (cases "x = lp")
    case True
    with Cons show ?thesis
      by (auto simp: absent_def split: option.splits entry.splits)
  next
    case False
    with Cons show ?thesis
      by (auto split: option.splits entry.splits sum.splits)
  qed
qed

lemma valid_pair_logging:
  assumes "valid_pair c x b acc = Inr acc'" and "x \<noteq> lp"
  shows "agg_logging_output acc' lp = agg_logging_output acc lp"
  using assms by (auto simp: valid_pair_def split: option.splits prod.splits)

lemma train_pair_logging:
  assumes "train_pair a c opt ig scored normed x b st = Inr st'" and "x \<noteq> lp"
  shows "agg_logging_output st' lp = agg_logging_output st lp"
  using assms by (auto simp: train_pair_def split: option.splits prod.splits sum.splits if_splits)

lemma valid_loop_logging:
  assumes "absent (batch_len c) sample lp" and "valid_loop c sample xs acc = Inr out"
  shows "agg_logging_output out lp = agg_logging_output acc lp"
  using assms
proof (induction xs arbitrary: acc)
  case Nil
  then show ?case by simp
next
  case (Cons x xs)
  show ?case
  proof (cases "absent (batch_len c) sample x")
    case True
    with Cons.prems have "valid_loop c sample xs acc = Inr out"
      by (auto simp: absent_def split: option.splits entry.splits)
    with Cons show ?thesis by simp
  next
    case False
    with Cons.prems(1) have ne: "x \<noteq> lp" by auto
    from False obtain b where b: "sample x = Some (Batch b)" "batch_len c b \<noteq> 0"
      by (auto simp: absent_def split: option.splits entry.splits)
    with Cons.prems(2) obtain acc' where one: "valid_pair c x b acc = Inr acc'"
      and rest: "valid_loop c sample xs acc' = Inr out"
      by (auto split: sum.splits)
    from Cons.IH [OF Cons.prems(1) rest] valid_pair_logging [OF one ne]
    show ?thesis by simp
  qed
qed

lemma train_loop_logging:
  assumes "absent (batch_len c) sample lp"
    and "train_loop a c sample opt ig scored normed xs st = Inr out"
  shows "agg_logging_output out lp = agg_logging_output st lp"
  using assms
proof (induction xs arbitrary: st)
  case Nil
  then show ?case by simp
next
  case (Cons x xs)
  show ?case
  proof (cases "absent (batch_len c) sample x")
    case True
    with Cons.prems have "train_loop a c sample opt ig scored normed xs st = Inr out"
      by (auto simp: absent_def split: option.splits entry.splits)
    with Cons show ?thesis by simp
  next
    case False
    with Cons.prems(1) have ne: "x \<noteq> lp" by auto
    from False obtain b where b: "sample x = Some (Batch b)" "batch_len c b \<noteq> 0"
      by (auto simp: absent_def split: option.splits entry.splits)
    with Cons.prems(2) obtain st' where one: "train_pair a c opt ig scored normed x b st = Inr st'"
      and rest: "train_loop a c sample opt ig scored normed xs st' = Inr out"
      by (auto split: sum.splits)
    from Cons.IH [OF Cons.prems(1) rest] train_pair_logging [OF one ne]
    show ?thesis by simp
  qed
qed

lemma valid_loop_all_absent:
  assumes "\<forall>p \<in> set xs. absent (batch_len c) sample p"
  shows "valid_loop c sample xs acc = Inr acc"
  using assms by (induction xs) (auto simp: absent_def split: option.splits entry.splits)

lemma score_loop_all_absent:
  assumes "\<forall>p \<in> set xs. absent (batch_len c) sample p"
  shows "score_loop c actor sample xs (ds, ss, es, out) = Inr (ds, ss, es, out)"
  using assms by (induction xs) (auto simp: absent_def split: option.splits entry.splits)

lemma normalize_loop_all_absent:
  assumes "\<forall>p \<in> set xs. absent (batch_len c) sample p"
  shows "normalize_loop c ty sample ds ss es xs normed = Inr normed"
  using assms by (induction xs) (auto simp: absent_def split: option.splits entry.splits)

lemma train_loop_all_absent:
  assumes "\<forall>p \<in> set xs. absent (batch_len c) sample p"
  shows "train_loop a c sample opt ig scored normed xs st = Inr st"
  using assms by (induction xs) (auto simp: absent_def split: option.splits entry.splits)

text \<open>
  Claim C9. A configured language pair that is absent from the sample (its key is
  missing, its value is \<^verbatim>\<open>None\<close> or its batch is empty) is skipped by \<open>train_step\<close> and by
  \<open>valid_step\<close>: the step gives exactly what it gives when that pair is not configured
  at all, be it a result or an exception, so the pair raises nothing and adds nothing to the
  loss, to the sample size or to the effects of the step; and the logging output of a
  step that returns has no entry for the pair. When every configured pair is absent,
  \<open>valid_step\<close> returns zero loss, zero size and an empty logging output.
\<close>

theorem step_skips_absent_lang_pair:
  assumes "absent (batch_len c) sample lp"
  shows "train_step self c sample optimizer ignore_grad data_actor lc dao
           = train_step (self\<lparr>model_lang_pairs := removeAll lp (model_lang_pairs self)\<rparr>)
               c sample optimizer ignore_grad data_actor lc dao
         \<and> valid_step self c sample
           = valid_step (self\<lparr>eval_lang_pairs := removeAll lp (eval_lang_pairs self)\<rparr>) c sample
         \<and> (\<forall>out. train_step self c sample optimizer ignore_grad data_actor lc dao = Inr out
                \<longrightarrow> agg_logging_output out lp = None)
         \<and> (\<forall>out. valid_step self c sample = Inr out \<longrightarrow> agg_logging_output out lp = None)
         \<and> ((\<forall>p \<in> set (eval_lang_pairs self). absent (batch_len c) sample p)
                \<longrightarrow> valid_step self c sample
                    = Inr \<lparr>agg_loss = 0, agg_sample_size = 0, agg_logging_output = Map.empty\<rparr>)
         \<and> ((\<forall>p \<in> set (model_lang_pairs self). absent (batch_len c) sample p)
                \<longrightarrow> train_step self c sample optimizer ignore_grad data_actor lc dao
                    = Inr \<lparr>agg_loss = 0, agg_sample_size = 0, agg_logging_output = Map.empty,
                           loss_copy = lc, data_actor_out = dao, backward = []\<rparr>)"
proof (intro conjI allI impI)
  show "train_step self c sample optimizer ignore_grad data_actor lc dao
          = train_step (self\<lparr>model_lang_pairs := removeAll lp (model_lang_pairs self)\<rparr>)
              c sample optimizer ignore_grad data_actor lc dao"
    unfolding train_step_def
    by (simp add: score_loop_skip [OF assms, symmetric] normalize_loop_skip [OF assms, symmetric]
        train_loop_skip [OF assms, symmetric] cong: option.case_cong sum.case_cong)
  show "valid_step self c sample
          = valid_step (self\<lparr>eval_lang_pairs := removeAll lp (eval_lang_pairs self)\<rparr>) c sample"
    unfolding valid_step_def
    by (simp add: valid_loop_skip [OF assms, symmetric])
next
  fix out
  assume "train_step self c sample optimizer ignore_grad data_actor lc dao = Inr out"
  then obtain scored normed st0 where
    run: "train_loop (args self) c sample optimizer ignore_grad scored normed (model_lang_pairs self) st0 = Inr out"
    and st0: "agg_logging_output st0 = Map.empty"
    unfolding train_step_def
    by (fastforce split: option.splits sum.splits prod.splits if_splits)
  from train_loop_logging [OF assms run] st0 show "agg_logging_output out lp = None"
    by simp
next
  fix out
  assume "valid_step self c sample = Inr out"
  from valid_loop_logging [OF assms this [unfolded valid_step_def]]
  show "agg_logging_output out lp = None" by simp
next
  assume "\<forall>p \<in> set (eval_lang_pairs self). absent (batch_len c) sample p"
  then show "valid_step self c sample
               = Inr \<lparr>agg_loss = 0, agg_sample_size = 0, agg_logging_output = Map.empty\<rparr>"
    unfolding valid_step_def by (rule valid_loop_all_absent)
next
  assume "\<forall>p \<in> set (model_lang_pairs self). absent (batch_len c) sample p"
  then show "train_step self c sample optimizer ignore_grad data_actor lc dao
               = Inr \<lparr>agg_loss = 0, agg_sample_size = 0, agg_logging_output = Map.empty,
                      loss_copy = lc, data_actor_out = dao, backward = []\<rparr>"
    unfolding train_step_def
    by (simp add: score_loop_all_absent normalize_loop_all_absent train_loop_all_absent
        split: option.splits)
qed

theorem step_skips_absent_lang_pair_witness:
  "absent (batch_len example_collab) example_sample ''fr-en''
   \<and> train_step example_task example_collab example_sample Single False None None None
       = train_step (example_task\<lparr>model_lang_pairs := removeAll ''fr-en'' (model_lang_pairs example_task)\<rparr>)
           example_collab example_sample Single False None None None
   \<and> train_step example_task example_collab example_sample Single False None None None
       = Inr \<lparr>agg_loss = 3, agg_sample_size = 3, agg_logging_output = [''de-en'' \<mapsto> 3],
              loss_copy = None, data_actor_out = None, backward = [(0, 3, False)]\<rparr>
   \<and> valid_step example_task example_collab example_sample
       = valid_step (example_task\<lparr>eval_lang_pairs := removeAll ''fr-en'' (eval_lang_pairs example_task)\<rparr>)
           example_collab example_sample
   \<and> valid_step example_task example_collab example_sample
       = Inr \<lparr>agg_loss = 3, agg_sample_size = 3, agg_logging_output = [''de-en'' \<mapsto> 3]\<rparr>"
proof -
  have ab: "absent (batch_len example_collab) example_sample ''fr-en''"
    by (simp add: absent_def example_collab_def example_sample_def)
  note skip = step_skips_absent_lang_pair [OF ab, of example_task Single False None None None]
  have tr: "train_step example_task example_collab example_sample Single False None None None
       = Inr \<lparr>agg_loss = 3, agg_sample_size = 3, agg_logging_output = [''de-en'' \<mapsto> 3],
              loss_copy = None, data_actor_out = None, backward = [(0, 3, False)]\<rparr>"
    by (simp add: train_step_def train_pair_def example_task_def example_collab_def example_sample_def)
  have va: "valid_step example_task example_collab example_sample
       = Inr \<lparr>agg_loss = 3, agg_sample_size = 3, agg_logging_output = [''de-en'' \<mapsto> 3]\<rparr>"
    by (simp add: valid_step_def valid_pair_def example_task_def example_collab_def example_sample_def)
  show ?thesis
    by (intro conjI ab skip [THEN conjunct1] tr skip [THEN conjunct2, THEN conjunct1] va)
qed

end
